theory Spec2Isabelle
  imports Complex_Main "HOL-Library.Sublist" "HOL-Library.Multiset" "HOL-Library.List_Lexorder"
begin

section \<open>Data model\<close>

text \<open>
  Python strings are sequences of Unicode code points; a string is modelled as the list
  of its code points, so that \<open>length\<close>, slicing and the \<open>in\<close> operator count
  what Python counts. Python floats are modelled as exact rationals: rounding is not
  part of the model. Python's \<open>str.lower\<close> and the tokenizer
  \<open>len(encoding.encode(s))\<close> are library functions; the functions that call them
  take them as the parameters \<open>lower\<close> and \<open>enc\<close>.
\<close>

type_synonym ustr = "nat list"

text \<open>
  A Python dict keeps its keys in insertion order. It is modelled as an association list
  with distinct keys: \<open>d[k] = v\<close> replaces the value of an existing key in place and
  appends a new key at the end.
\<close>

type_synonym ('k, 'v) dict = "('k \<times> 'v) list"

fun dict_set :: "('k, 'v) dict \<Rightarrow> 'k \<Rightarrow> 'v \<Rightarrow> ('k, 'v) dict" where
  "dict_set [] k v = [(k, v)]"
| "dict_set ((k', v') # d) k v =
     (if k' = k then (k, v) # d else (k', v') # dict_set d k v)"

definition dict_get :: "('k, 'v) dict \<Rightarrow> 'k \<Rightarrow> 'v \<Rightarrow> 'v" where
  \<comment> \<open>\<open>d.get(k, default)\<close>\<close>
  "dict_get d k dflt = (case map_of d k of None \<Rightarrow> dflt | Some v \<Rightarrow> v)"

definition dict_update :: "('k, 'v) dict \<Rightarrow> ('k, 'v) dict \<Rightarrow> ('k, 'v) dict" where
  \<comment> \<open>\<open>d.update(r)\<close>: assigns the items of \<open>r\<close> in their order\<close>
  "dict_update d r = fold (\<lambda>(k, v) acc. dict_set acc k v) r d"

fun contains :: "'a list \<Rightarrow> 'a list \<Rightarrow> bool" where
  \<comment> \<open>\<open>needle in haystack\<close> on strings\<close>
  "contains xs [] = (xs = [])"
| "contains xs (y # ys) = (prefix xs (y # ys) \<or> contains xs ys)"

section \<open>agents/state.py\<close>

definition truthy :: "('k, 'v) dict option \<Rightarrow> bool" where
  \<comment> \<open>truth value of a dict-or-None: neither \<open>None\<close> nor empty\<close>
  "truthy d = (case d of None \<Rightarrow> False | Some m \<Rightarrow> m \<noteq> [])"

definition merge_dicts ::
  "('k, 'v) dict option \<Rightarrow> ('k, 'v) dict option \<Rightarrow> ('k, 'v) dict" where
  "merge_dicts left right =
     (let result = (if truthy left then the left else [])
      in if truthy right then dict_update result (the right) else result)"

definition items :: "('k, 'v) dict option \<Rightarrow> ('k, 'v) dict" where
  \<comment> \<open>the items of a dict-or-None, none for \<open>None\<close>\<close>
  "items d = (case d of None \<Rightarrow> [] | Some m \<Rightarrow> m)"

section \<open>agents/context\_judgement\_agent.py: relevance gate\<close>

definition check_relevance_with_preprocessed ::
  "(ustr \<Rightarrow> ustr) \<Rightarrow> ustr list \<Rightarrow> ustr \<Rightarrow> rat \<Rightarrow> bool" where
  "check_relevance_with_preprocessed lower expanded_terms content min_relevance =
     (if expanded_terms = [] then True
      else
        let content_lower = lower content;
            matched = length (filter (\<lambda>term. contains (lower term) content_lower) expanded_terms);
            relevance = of_nat matched / of_nat (length expanded_terms)
        in relevance \<ge> min_relevance)"

datatype direction = Prev | Next | Both

text \<open>
  The completeness report of the structure analyzer, as far as
  \<open>should_expand_chunk\<close> reads and writes it.
\<close>

record completeness =
  is_complete :: bool
  direction :: "direction option"
  front_issues :: "ustr list"
  back_issues :: "ustr list"
  reasons :: "ustr list"

definition should_expand_chunk ::
  "(ustr \<Rightarrow> ustr) \<Rightarrow> ustr list \<Rightarrow> ustr \<Rightarrow> completeness \<Rightarrow> bool \<times> completeness" where
  \<comment> \<open>returns the verdict and the completeness report, whose direction it may rewrite\<close>
  "should_expand_chunk lower expanded_terms content c =
     (if is_complete c then (False, c)
      else if \<not> check_relevance_with_preprocessed lower expanded_terms content (3 / 10)
      then (False, c)
      else if direction c = Some Both then
        (if front_issues c \<noteq> [] \<and> back_issues c = [] then (True, c\<lparr>direction := Some Prev\<rparr>)
         else if back_issues c \<noteq> [] \<and> front_issues c = [] then (True, c\<lparr>direction := Some Next\<rparr>)
         else if front_issues c \<noteq> [] \<and> back_issues c \<noteq> [] then (True, c\<lparr>direction := Some Next\<rparr>)
         else (True, c))
      else (True, c))"

section \<open>agents/router\_agent.py\<close>

datatype intent = Search | Upload | Manage

definition SEARCH_KEYWORDS :: "ustr list" where
  "SEARCH_KEYWORDS =
    [[44160, 49353], [52286, 50500], [50508, 47140, 51480],
     [50508, 47140, 51452, 49464, 50836], [47924, 50631], [50612, 46523, 44172],
     [50616, 51228], [48372, 51109], [48372, 54744], [50557, 44288], [51312, 54637],
     [45236, 50857], [49444, 47749], [44417, 44552], [51656, 47928], [47928, 51032],
     [54869, 51064], [44032, 51077], [54644, 51648], [52397, 44396]]"

definition UPLOAD_KEYWORDS :: "ustr list" where
  "UPLOAD_KEYWORDS =
    [[50629, 47196, 46300], [50732, 47140], [46321, 47197], [52628, 44032],
     [54028, 51068], [80, 68, 70], [47928, 49436]]"

definition MANAGE_KEYWORDS :: "ustr list" where
  "MANAGE_KEYWORDS =
    [[44288, 47532], [47785, 47197], [49325, 51228], [45796, 50868, 47196, 46300],
     [51312, 54924], [48372, 44592]]"

definition keywords_of :: "intent \<Rightarrow> ustr list" where
  \<comment> \<open>the keyword list that scores for an intent\<close>
  "keywords_of i =
     (case i of Search \<Rightarrow> SEARCH_KEYWORDS | Upload \<Rightarrow> UPLOAD_KEYWORDS | Manage \<Rightarrow> MANAGE_KEYWORDS)"

definition keyword_score :: "ustr list \<Rightarrow> ustr \<Rightarrow> nat" where
  \<comment> \<open>\<open>sum(1 for keyword in KEYWORDS if keyword in query_lower)\<close>\<close>
  "keyword_score keywords query_lower =
     length (filter (\<lambda>keyword. contains keyword query_lower) keywords)"

fun max_key :: "'k \<times> nat \<Rightarrow> ('k \<times> nat) list \<Rightarrow> 'k \<times> nat" where
  \<comment> \<open>\<open>max(scores, key=scores.get)\<close> over the items of a non-empty dict in insertion
      order: a later key replaces the best one only when its value is strictly greater\<close>
  "max_key best [] = best"
| "max_key best (kv # rest) = max_key (if snd best < snd kv then kv else best) rest"

definition classify_intent :: "(ustr \<Rightarrow> ustr) \<Rightarrow> ustr \<Rightarrow> intent" where
  "classify_intent lower query =
     (let query_lower = lower query;
          upload_score = keyword_score UPLOAD_KEYWORDS query_lower;
          manage_score = keyword_score MANAGE_KEYWORDS query_lower;
          search_score = keyword_score SEARCH_KEYWORDS query_lower;
          best = max_key (Upload, upload_score) [(Manage, manage_score), (Search, search_score)]
      in if snd best = 0 then Search else fst best)"

definition ascii_lower :: "ustr \<Rightarrow> ustr" where
  \<comment> \<open>\<open>str.lower\<close> on strings of ASCII and uncased (Hangul) characters\<close>
  "ascii_lower s = map (\<lambda>c. if 65 \<le> c \<and> c \<le> 90 then c + 32 else c) s"

section \<open>services/answer\_validator.py: confidence\<close>

record ValidationDetail =
  check_name :: ustr
  passed :: bool
  score :: rat
  details :: "ustr option"

record AnswerValidation =
  confidence_score :: rat
  is_reliable :: bool
  hallucination_check :: ValidationDetail
  clause_existence_check :: ValidationDetail
  context_match_check :: ValidationDetail
  format_check :: ValidationDetail
  regeneration_count :: nat
  warnings :: "ustr list"







section \<open>services/vector\_search.py: search results\<close>

datatype error = ZeroDivisionError | StorageError

datatype mval =
    MBool bool | MInt int | MIds "int list" | MStr ustr | MStrs "ustr list"
  | MDict "(string \<times> mval) list"

record VectorSearchResult =
  chunk_id :: int
  document_id :: int
  content :: ustr
  similarity :: rat
  chunk_type :: ustr
  page_number :: "int option"
  section_title :: "ustr option"
  clause_number :: "ustr option"
  metadata :: "(string, mval) dict"
  document_filename :: "ustr option"
  document_type :: "ustr option"
  company_name :: "ustr option"

section \<open>services/hybrid\_search.py\<close>














definition tokens_of :: "(ustr \<Rightarrow> nat) \<Rightarrow> VectorSearchResult list \<Rightarrow> int" where
  \<comment> \<open>the sum of the token counts of a list of results\<close>
  "tokens_of enc rs = sum_list (map (\<lambda>r. int (enc (content r))) rs)"

section \<open>services/chunk\_expansion\_service.py\<close>

text \<open>
  The chunk store: the rows of the tables \<open>document_chunks\<close> and \<open>documents\<close> that
  the queries of the service read. A database session either answers from a store or
  raises on every query. The character classes \<open>\d\<close> and \<open>\s\<close> of Python's regular
  expressions (and the whitespace of \<open>str.strip\<close>) are the parameters \<open>dg\<close> and
  \<open>sp\<close>; the matchers below assume what holds of Unicode: the two classes are
  disjoint and contain neither a Hangul syllable nor a dot.
\<close>

record chunk_row =
  row_id :: int
  row_document_id :: int
  row_chunk_index :: int
  row_content :: ustr
  row_chunk_type :: ustr
  row_page_number :: "int option"
  row_section_title :: "ustr option"
  row_clause_number :: "ustr option"
  row_metadata :: "(string, mval) dict option"

record document_row =
  doc_id :: int
  doc_filename :: "ustr option"
  doc_type :: "ustr option"
  doc_company_name :: "ustr option"
  doc_status :: string

record store =
  chunks :: "chunk_row list"
  documents :: "document_row list"

datatype session = Connected store | Failing ustr

definition row_to_result :: "chunk_row \<times> document_row \<Rightarrow> VectorSearchResult" where
  "row_to_result row =
     (case row of (c, d) \<Rightarrow>
        \<lparr>chunk_id = row_id c, document_id = row_document_id c, content = row_content c,
         similarity = 1, chunk_type = row_chunk_type c, page_number = row_page_number c,
         section_title = row_section_title c, clause_number = row_clause_number c,
         metadata = (case row_metadata c of None \<Rightarrow> [] | Some m \<Rightarrow> m),
         document_filename = doc_filename d, document_type = doc_type d,
         company_name = doc_company_name d\<rparr>)"

definition active_rows_of :: "store \<Rightarrow> int \<Rightarrow> (chunk_row \<times> document_row) list" where
  \<comment> \<open>\<open>document_chunks c INNER JOIN documents d ON c.document_id = d.id
      WHERE c.document_id = :document_id AND d.status = 'active'\<close>\<close>
  "active_rows_of st document =
     concat (map (\<lambda>c. map (\<lambda>d. (c, d))
                          (filter (\<lambda>d. row_document_id c = doc_id d \<and> doc_status d = ''active'')
                                  (documents st)))
                 (filter (\<lambda>c. row_document_id c = document) (chunks st)))"

definition get_adjacent_chunks ::
  "session \<Rightarrow> int \<Rightarrow> direction option \<Rightarrow> nat
   \<Rightarrow> VectorSearchResult list \<times> VectorSearchResult list" where
  \<comment> \<open>the pair is the dict \<open>{"prev": [...], "next": [...]}\<close>; the direction \<open>None\<close>
      is the string \<open>"none"\<close> of the structure analyzer\<close>
  "get_adjacent_chunks sess pivot dir limit =
     (case sess of
        Failing e \<Rightarrow> ([], [])
      | Connected st \<Rightarrow>
          (case find (\<lambda>c. row_id c = pivot) (chunks st) of
             None \<Rightarrow> ([], [])
           | Some base_row \<Rightarrow>
               let rows = active_rows_of st (row_document_id base_row);
                   prev_rows =
                     take limit
                       (sort_key (\<lambda>r. - row_chunk_index (fst r))
                          (filter (\<lambda>r. row_chunk_index (fst r) < row_chunk_index base_row) rows));
                   next_rows =
                     take limit
                       (sort_key (\<lambda>r. row_chunk_index (fst r))
                          (filter (\<lambda>r. row_chunk_index (fst r) > row_chunk_index base_row) rows))
               in ((if dir = Some Prev \<or> dir = Some Both
                    then map row_to_result (rev prev_rows) else []),
                   (if dir = Some Next \<or> dir = Some Both
                    then map row_to_result next_rows else []))))"

definition strip :: "(nat \<Rightarrow> bool) \<Rightarrow> ustr \<Rightarrow> ustr" where
  "strip sp s = rev (dropWhile sp (rev (dropWhile sp s)))"

definition match_numbered_heading :: "(nat \<Rightarrow> bool) \<Rightarrow> (nat \<Rightarrow> bool) \<Rightarrow> nat \<Rightarrow> ustr \<Rightarrow> bool" where
  \<comment> \<open>\<open>re.match\<close> of the patterns made of the syllable 51228, \<open>\d+\<close> and one closing
      syllable \<open>kind\<close>\<close>
  "match_numbered_heading dg sp kind s =
     (case s of
        [] \<Rightarrow> False
      | c # rest \<Rightarrow>
          c = 51228 \<and> takeWhile dg rest \<noteq> [] \<and>
          (case dropWhile dg rest of [] \<Rightarrow> False | k # _ \<Rightarrow> k = kind))"

definition match_numbered_title :: "(nat \<Rightarrow> bool) \<Rightarrow> (nat \<Rightarrow> bool) \<Rightarrow> ustr \<Rightarrow> bool" where
  \<comment> \<open>\<open>re.match\<close> of \<open>\d+\.\s*[\<dots>]+\<close>, the class being the Hangul syllables
      44032 to 55203\<close>
  "match_numbered_title dg sp s =
     (takeWhile dg s \<noteq> [] \<and>
      (case dropWhile dg s of
         [] \<Rightarrow> False
       | d # rest \<Rightarrow>
           d = 46 \<and>
           (case dropWhile sp rest of [] \<Rightarrow> False | h # _ \<Rightarrow> 44032 \<le> h \<and> h \<le> 55203)))"

definition check_new_section_start ::
  "(nat \<Rightarrow> bool) \<Rightarrow> (nat \<Rightarrow> bool) \<Rightarrow> ustr \<Rightarrow> ustr option \<Rightarrow> bool" where
  "check_new_section_start dg sp body primary_content =
     (if body = [] \<or> strip sp body = [] then False
      else
        let first_line = strip sp (takeWhile (\<lambda>c. c \<noteq> 10) (strip sp body))
        in if prefix [124] first_line
           then (case primary_content of
                   None \<Rightarrow> True
                 | Some p \<Rightarrow> \<not> (p \<noteq> [] \<and> contains [124] p))
           else match_numbered_heading dg sp 51312 first_line \<or>
                match_numbered_heading dg sp 51109 first_line \<or>
                match_numbered_heading dg sp 51208 first_line \<or>
                match_numbered_title dg sp first_line)"

definition EXPANSION_MAX_CONTEXT_TOKENS :: int where
  \<comment> \<open>\<open>ChunkExpansionService.MAX_CONTEXT_TOKENS\<close>\<close>
  "EXPANSION_MAX_CONTEXT_TOKENS = 15000"

text \<open>
  The \<open>while\<close> loop of \<open>merge_chunks\<close>. The previous chunks are taken from the one
  next to the pivot outwards, that is in reverse; \<open>included\<close> holds the chunks merged so
  far in their final order. The result is the included chunks, the token total and the
  \<open>truncated\<close> flag.
\<close>

fun merge_loop ::
  "(ustr \<Rightarrow> nat) \<Rightarrow> (ustr \<Rightarrow> bool) \<Rightarrow> int \<Rightarrow> VectorSearchResult list \<Rightarrow> VectorSearchResult list
   \<Rightarrow> VectorSearchResult list \<Rightarrow> int \<Rightarrow> VectorSearchResult list \<times> int \<times> bool" where
  "merge_loop enc new_section max_tokens [] [] included total_tokens =
     (included, total_tokens, False)"
| "merge_loop enc new_section max_tokens (p # ps) [] included total_tokens =
     (if total_tokens + int (enc (content p)) \<le> max_tokens
      then merge_loop enc new_section max_tokens ps [] (p # included)
             (total_tokens + int (enc (content p)))
      else (included, total_tokens, True))"
| "merge_loop enc new_section max_tokens [] (n # ns) included total_tokens =
     (if new_section (content n) then (included, total_tokens, False)
      else if total_tokens + int (enc (content n)) \<le> max_tokens
      then merge_loop enc new_section max_tokens [] ns (included @ [n])
             (total_tokens + int (enc (content n)))
      else (included, total_tokens, True))"
| "merge_loop enc new_section max_tokens (p # ps) (n # ns) included total_tokens =
     (if new_section (content n) then (included, total_tokens, False)
      else if total_tokens + int (enc (content n)) \<le> max_tokens
      then
        (if total_tokens + int (enc (content n)) + int (enc (content p)) \<le> max_tokens
         then merge_loop enc new_section max_tokens ps ns (p # included @ [n])
                (total_tokens + int (enc (content n)) + int (enc (content p)))
         else (included @ [n], total_tokens + int (enc (content n)), True))
      else (included, total_tokens, True))"

fun join :: "'a list \<Rightarrow> 'a list list \<Rightarrow> 'a list" where
  \<comment> \<open>\<open>sep.join(parts)\<close>\<close>
  "join sep [] = []"
| "join sep [x] = x"
| "join sep (x # y # rest) = x @ sep @ join sep (y # rest)"

record merged =
  merged_content :: ustr
  included_chunks :: "int list"
  total_tokens :: int
  truncated :: bool

definition merge_chunks ::
  "(ustr \<Rightarrow> nat) \<Rightarrow> (nat \<Rightarrow> bool) \<Rightarrow> (nat \<Rightarrow> bool) \<Rightarrow> VectorSearchResult
   \<Rightarrow> VectorSearchResult list \<Rightarrow> VectorSearchResult list \<Rightarrow> int option \<Rightarrow> merged" where
  "merge_chunks enc dg sp primary_chunk prev_chunks next_chunks max_tokens_opt =
     (let max_tokens =
            (case max_tokens_opt of None \<Rightarrow> EXPANSION_MAX_CONTEXT_TOKENS | Some m \<Rightarrow> m);
          primary_tokens = int (enc (content primary_chunk));
          (included, total, trunc) =
            (if primary_tokens > max_tokens then ([primary_chunk], primary_tokens, True)
             else merge_loop enc
                    (\<lambda>body. check_new_section_start dg sp body (Some (content primary_chunk)))
                    max_tokens (rev prev_chunks) next_chunks [primary_chunk] primary_tokens)
      in \<lparr>merged_content = join [10, 10] (map content included),
          included_chunks = map chunk_id included,
          total_tokens = total, truncated = trunc\<rparr>)"

text \<open>An entry of \<open>chunks_to_expand\<close>: a chunk id with the direction to expand in.\<close>

record expand_item =
  item_chunk_id :: int
  item_direction :: "direction option"
  item_reasons :: "ustr list"

fun expand_loop ::
  "(ustr \<Rightarrow> nat) \<Rightarrow> (nat \<Rightarrow> bool) \<Rightarrow> (nat \<Rightarrow> bool) \<Rightarrow> session
   \<Rightarrow> (int, direction option) dict \<Rightarrow> int \<Rightarrow> VectorSearchResult list
   \<Rightarrow> VectorSearchResult list \<Rightarrow> int \<Rightarrow> VectorSearchResult list" where
  "expand_loop enc dg sp sess expand_map max_tokens [] expanded_results used = expanded_results"
| "expand_loop enc dg sp sess expand_map max_tokens (result # rest) expanded_results used =
     (case map_of expand_map (chunk_id result) of
        Some dir \<Rightarrow>
          if used \<ge> max_tokens
          then expand_loop enc dg sp sess expand_map max_tokens rest
                 (expanded_results @ [result]) used
          else
            (case get_adjacent_chunks sess (chunk_id result) dir 2 of
               (prev_chunks, next_chunks) \<Rightarrow>
                 let m = merge_chunks enc dg sp result prev_chunks next_chunks
                           (Some (max_tokens - used))
                 in if used + total_tokens m > max_tokens
                    then
                      (let chunk_tokens = int (enc (content result))
                       in if used + chunk_tokens \<le> max_tokens
                          then expand_loop enc dg sp sess expand_map max_tokens rest
                                 (expanded_results @ [result]) (used + chunk_tokens)
                          else expand_loop enc dg sp sess expand_map max_tokens rest
                                 expanded_results used)
                    else
                      expand_loop enc dg sp sess expand_map max_tokens rest
                        (expanded_results @
                           [result\<lparr>content := merged_content m,
                                   metadata :=
                                     dict_update (metadata result)
                                       [(''expanded'', MBool True),
                                        (''included_chunks'', MIds (included_chunks m)),
                                        (''total_tokens'', MInt (total_tokens m)),
                                        (''truncated'', MBool (truncated m))]\<rparr>])
                        (used + total_tokens m))
      | None \<Rightarrow>
          let chunk_tokens = int (enc (content result))
          in if used + chunk_tokens > max_tokens then expanded_results
             else expand_loop enc dg sp sess expand_map max_tokens rest
                    (expanded_results @ [result]) (used + chunk_tokens))"

definition expand_search_results ::
  "(ustr \<Rightarrow> nat) \<Rightarrow> (nat \<Rightarrow> bool) \<Rightarrow> (nat \<Rightarrow> bool) \<Rightarrow> session \<Rightarrow> VectorSearchResult list
   \<Rightarrow> expand_item list \<Rightarrow> int option \<Rightarrow> VectorSearchResult list" where
  "expand_search_results enc dg sp sess results to_expand max_tokens_opt =
     (let max_tokens =
            (case max_tokens_opt of None \<Rightarrow> EXPANSION_MAX_CONTEXT_TOKENS | Some m \<Rightarrow> m);
          expand_map =
            fold (\<lambda>item acc. dict_set acc (item_chunk_id item) (item_direction item)) to_expand []
      in expand_loop enc dg sp sess expand_map max_tokens results [] 0)"

section \<open>agents: state, context judge, chunk expander, graph\<close>

text \<open>
  The fields of \<open>ISPLState\<close> that the search pipeline reads or writes. The search
  results of the state are the dict form of \<open>VectorSearchResult\<close> and are modelled by
  the same record. A node returns a dict of updates; the graph assigns every returned key
  to the state, except \<open>task_results\<close>, which it merges with \<open>merge_dicts\<close>.
\<close>

record ISPLState =
  next_agent :: string
  task_type :: "intent option"
  task_results :: "(string, mval) dict"
  query :: ustr
  search_results :: "VectorSearchResult list"
  error_message :: "ustr option"
  context_sufficient :: "bool option"
  expanded_chunks :: "int list"
  expansion_count :: int
  chunks_to_expand :: "expand_item list"

definition create_initial_state :: "ustr \<Rightarrow> intent \<Rightarrow> ISPLState" where
  "create_initial_state q t =
     \<lparr>next_agent = ''router'', task_type = Some t, task_results = [], query = q,
      search_results = [], error_message = None, context_sufficient = None,
      expanded_chunks = [], expansion_count = 0, chunks_to_expand = []\<rparr>"

definition MAX_EXPANSION_COUNT :: int where
  "MAX_EXPANSION_COUNT = 3"

text \<open>The answer of \<open>llm_sufficiency_check\<close>, a call to the language model.\<close>

record llm_check =
  is_sufficient :: bool
  llm_chunks_to_expand :: "int list"

definition mval_truthy :: "mval \<Rightarrow> bool" where
  "mval_truthy v =
     (case v of MBool b \<Rightarrow> b | MInt i \<Rightarrow> i \<noteq> 0 | MIds l \<Rightarrow> l \<noteq> [] | MStr t \<Rightarrow> t \<noteq> []
      | MStrs l \<Rightarrow> l \<noteq> [] | MDict d \<Rightarrow> d \<noteq> [])"

definition sub_dict :: "(string, mval) dict \<Rightarrow> string \<Rightarrow> (string, mval) dict" where
  \<comment> \<open>\<open>d.get(key, {})\<close> for a value that is a dict\<close>
  "sub_dict d key = (case map_of d key of Some (MDict m) \<Rightarrow> m | _ \<Rightarrow> [])"

definition preprocessed_terms :: "(string, mval) dict \<Rightarrow> ustr list" where
  \<comment> \<open>\<open>task_results.get("search", {}).get("preprocessing", {}).get("expanded_terms", [])\<close>\<close>
  "preprocessed_terms tr =
     (case map_of (sub_dict (sub_dict tr ''search'') ''preprocessing'') ''expanded_terms'' of
        Some (MStrs ts) \<Rightarrow> ts | _ \<Rightarrow> [])"

fun structure_pass ::
  "(ustr \<Rightarrow> completeness) \<Rightarrow> (ustr \<Rightarrow> ustr) \<Rightarrow> ustr list \<Rightarrow> VectorSearchResult list
   \<Rightarrow> expand_item list" where
  \<comment> \<open>the loop of \<open>judge\<close> that collects the incomplete and relevant chunks\<close>
  "structure_pass analyze lower expanded_terms [] = []"
| "structure_pass analyze lower expanded_terms (result # rest) =
     (if mval_truthy (dict_get (metadata result) ''expanded'' (MBool False))
      then structure_pass analyze lower expanded_terms rest
      else
        let completeness = analyze (content result)
        in if \<not> is_complete completeness
           then
             (case should_expand_chunk lower expanded_terms (content result) completeness of
                (True, completeness') \<Rightarrow>
                  \<lparr>item_chunk_id = chunk_id result, item_direction = direction completeness',
                   item_reasons = reasons completeness'\<rparr>
                  # structure_pass analyze lower expanded_terms rest
              | (False, completeness') \<Rightarrow> structure_pass analyze lower expanded_terms rest)
           else structure_pass analyze lower expanded_terms rest)"

fun add_llm_chunks :: "int list \<Rightarrow> expand_item list \<Rightarrow> expand_item list" where
  "add_llm_chunks [] chunks_needing_expansion = chunks_needing_expansion"
| "add_llm_chunks (c # rest) chunks_needing_expansion =
     add_llm_chunks rest
       (if list_ex (\<lambda>i. item_chunk_id i = c) chunks_needing_expansion
        then chunks_needing_expansion
        else chunks_needing_expansion @
               [\<lparr>item_chunk_id = c, item_direction = Some Both,
                 item_reasons = [[76, 76, 77, 32, 54032, 45800]]\<rparr>])"

definition judgement_summary :: "bool \<Rightarrow> (string, mval) dict \<Rightarrow> (string, mval) dict" where
  \<comment> \<open>the \<open>task_results\<close> update of the judge: the key \<open>context_judgement\<close>
      with its flags and counters; the nested copies of the model's answer and of the
      chunks to expand are left out\<close>
  "judgement_summary sufficient extra =
     [(''context_judgement'',
       MDict ([(''success'', MBool True), (''sufficient'', MBool sufficient)] @ extra))]"

definition judge_sufficient :: "ISPLState \<Rightarrow> (string, mval) dict \<Rightarrow> ISPLState" where
  \<comment> \<open>the update shared by the three forced exits of \<open>judge\<close>\<close>
  "judge_sufficient st extra =
     st\<lparr>context_sufficient := Some True, chunks_to_expand := [],
        task_results := merge_dicts (Some (task_results st)) (Some (judgement_summary True extra)),
        next_agent := ''answer_agent''\<rparr>"

text \<open>
  \<open>judge\<close>. The tokenizer, \<open>str.lower\<close>, \<open>str.split\<close>, the structure analyzer's
  completeness report and the answer of the language model are arguments.
\<close>

definition judge ::
  "(ustr \<Rightarrow> nat) \<Rightarrow> (ustr \<Rightarrow> ustr) \<Rightarrow> (ustr \<Rightarrow> ustr list) \<Rightarrow> (ustr \<Rightarrow> completeness)
   \<Rightarrow> llm_check \<Rightarrow> ISPLState \<Rightarrow> ISPLState" where
  "judge enc lower split analyze llm st =
     (let expanded_terms0 = preprocessed_terms (task_results st);
          expanded_terms =
            (if expanded_terms0 = [] then filter (\<lambda>w. length w \<ge> 2) (split (query st))
             else expanded_terms0);
          current_tokens = tokens_of enc (search_results st)
      in if search_results st = []
         then judge_sufficient st [(''reason'', MStr [44160, 49353, 32, 44208, 44284, 32, 50630, 51020])]
         else if expansion_count st \<ge> MAX_EXPANSION_COUNT
         then judge_sufficient st
                [(''reason'', MStr [52572, 45824, 32, 54869, 51109, 32, 54943, 49688, 32, 46020, 45804]),
                 (''expansion_count'', MInt (expansion_count st))]
         else if expansion_count st \<ge> 1 \<and> current_tokens > 10000
         then judge_sufficient st
                [(''reason'', MStr [53664, 53360, 32, 51228, 54620, 32, 46020, 45804]),
                 (''current_tokens'', MInt current_tokens)]
         else
           let chunks_needing_expansion =
                 structure_pass analyze lower expanded_terms (search_results st)
           in if expansion_count st \<ge> 1
              then
                st\<lparr>context_sufficient := Some (is_sufficient llm),
                   chunks_to_expand :=
                     (if is_sufficient llm then []
                      else map (\<lambda>cid. \<lparr>item_chunk_id = cid, item_direction = Some Next,
                                      item_reasons = []\<rparr>)
                               (take 1 (llm_chunks_to_expand llm))),
                   task_results :=
                     merge_dicts (Some (task_results st))
                       (Some (judgement_summary (is_sufficient llm)
                                [(''expansion_count'', MInt (expansion_count st)),
                                 (''current_tokens'', MInt current_tokens)])),
                   next_agent :=
                     (if is_sufficient llm then ''answer_agent'' else ''chunk_expansion_agent'')\<rparr>
              else
                let needing = add_llm_chunks (llm_chunks_to_expand llm) chunks_needing_expansion;
                    sufficient = (needing = [] \<and> is_sufficient llm)
                in if sufficient
                   then judge_sufficient st [(''expansion_count'', MInt (expansion_count st))]
                   else
                     st\<lparr>context_sufficient := Some False, chunks_to_expand := needing,
                        task_results :=
                          merge_dicts (Some (task_results st))
                            (Some (judgement_summary False
                                     [(''expansion_count'', MInt (expansion_count st))])),
                        next_agent := ''chunk_expansion_agent''\<rparr>)"

text \<open>
  \<open>ChunkExpansionAgent.expand\<close>. Opening the database session and running the
  expansion happen inside one \<open>try\<close> block; the argument is the session, or the
  message of the exception.
\<close>

definition expand ::
  "(ustr \<Rightarrow> nat) \<Rightarrow> (nat \<Rightarrow> bool) \<Rightarrow> (nat \<Rightarrow> bool) \<Rightarrow> ustr + session \<Rightarrow> ISPLState
   \<Rightarrow> ISPLState" where
  "expand enc dg sp outcome st =
     (if chunks_to_expand st = []
      then st\<lparr>expansion_count := expansion_count st + 1,
              task_results :=
                merge_dicts (Some (task_results st))
                  (Some [(''chunk_expansion'',
                          MDict [(''success'', MBool True), (''expanded'', MBool False),
                                 (''reason'', MStr [54869, 51109, 54624, 32, 52397, 53356, 32,
                                                    50630, 51020])])]),
              next_agent := ''context_judgement_agent''\<rparr>
      else
        (case outcome of
           Inr sess \<Rightarrow>
             let expanded_results =
                   expand_search_results enc dg sp sess (search_results st)
                     (chunks_to_expand st) (Some 15000);
                 expanded_chunk_ids =
                   map chunk_id
                     (filter (\<lambda>r. mval_truthy (dict_get (metadata r) ''expanded'' (MBool False)))
                             expanded_results)
             in st\<lparr>search_results := expanded_results,
                   expanded_chunks := expanded_chunk_ids,
                   expansion_count := expansion_count st + 1,
                   chunks_to_expand := [],
                   task_results :=
                     merge_dicts (Some (task_results st))
                       (Some [(''chunk_expansion'',
                               MDict [(''success'', MBool True), (''expanded'', MBool True),
                                      (''expanded_chunk_ids'', MIds expanded_chunk_ids),
                                      (''expansion_count'', MInt (expansion_count st + 1))])]),
                   next_agent := ''context_judgement_agent''\<rparr>
         | Inl e \<Rightarrow>
             st\<lparr>error_message :=
                  Some ([52397, 53356, 32, 54869, 51109, 32, 51473, 32, 50724, 47448, 58, 32] @ e),
                expansion_count := expansion_count st + 1,
                task_results :=
                  merge_dicts (Some (task_results st))
                    (Some [(''chunk_expansion'',
                            MDict [(''success'', MBool False), (''error'', MStr e)])]),
                next_agent := ''answer_agent''\<rparr>))"

section \<open>agents/graph.py\<close>

datatype node =
    RouterNode | SearchNode | JudgeNode | ExpandNode | AnswerNode | ProcessingNode
  | ManagementNode | EndNode

definition route :: "(ustr \<Rightarrow> ustr) \<Rightarrow> ISPLState \<Rightarrow> node \<times> ISPLState" where
  \<comment> \<open>\<open>RouterAgent.route\<close>: the node of the \<open>Command\<close> and the updated state\<close>
  "route lower st =
     (let intent =
            (case task_type st of
               Some t \<Rightarrow> t
             | None \<Rightarrow> if query st = [] then Search else classify_intent lower (query st))
      in case intent of
           Search \<Rightarrow> (SearchNode, st\<lparr>task_type := Some intent, next_agent := ''search_agent''\<rparr>)
         | Upload \<Rightarrow>
             (ProcessingNode, st\<lparr>task_type := Some intent, next_agent := ''processing_agent''\<rparr>)
         | Manage \<Rightarrow>
             (ManagementNode, st\<lparr>task_type := Some intent, next_agent := ''management_agent''\<rparr>))"

definition route_after_judgement :: "ISPLState \<Rightarrow> node" where
  \<comment> \<open>\<open>state.get("context_sufficient", True)\<close> is truthy only for \<open>True\<close>\<close>
  "route_after_judgement st =
     (if context_sufficient st = Some True then AnswerNode else ExpandNode)"

text \<open>
  One step of the compiled graph. The edges are those of \<open>create_graph\<close>. The
  search, answer, processing and management agents are outside the expansion loop; a
  step of theirs is any update of the fields they return (none of them returns
  \<open>expansion_count\<close>, \<open>context_sufficient\<close> or \<open>chunks_to_expand\<close>). The answers of
  the language model, of the database and of the library functions are arbitrary at
  every step.
\<close>

inductive step :: "node \<times> ISPLState \<Rightarrow> node \<times> ISPLState \<Rightarrow> bool" where
  router_step: "step (RouterNode, st) (route lower st)"
| search_step:
    "step (SearchNode, st)
       (JudgeNode, st\<lparr>search_results := rs, task_results := tr, error_message := e,
                      next_agent := na\<rparr>)"
| judge_step:
    "st' = judge enc lower split analyze llm st \<Longrightarrow>
     step (JudgeNode, st) (route_after_judgement st', st')"
| expand_step: "step (ExpandNode, st) (JudgeNode, expand enc dg sp outcome st)"
| answer_step:
    "step (AnswerNode, st)
       (EndNode, st\<lparr>task_results := tr, error_message := e, next_agent := na\<rparr>)"
| processing_step:
    "step (ProcessingNode, st)
       (EndNode, st\<lparr>task_results := tr, error_message := e, next_agent := na\<rparr>)"
| management_step:
    "step (ManagementNode, st)
       (EndNode, st\<lparr>task_results := tr, error_message := e, next_agent := na\<rparr>)"

section \<open>services/answer\_validator.py: clause existence\<close>

definition match_clause_at :: "(nat \<Rightarrow> bool) \<Rightarrow> (nat \<Rightarrow> bool) \<Rightarrow> ustr \<Rightarrow> (ustr \<times> ustr) option" where
  \<comment> \<open>the rest of the pattern after its first syllable: \<open>\s*(\d+)\s*\<close> and the
      closing syllable 51312; the result is the group and the text after the match\<close>
  "match_clause_at dg sp rest =
     (let r1 = dropWhile sp rest; ds = takeWhile dg r1
      in case dropWhile sp (dropWhile dg r1) of
           [] \<Rightarrow> None
         | k # after \<Rightarrow> if ds \<noteq> [] \<and> k = 51312 then Some (ds, after) else None)"

function extract_matches :: "(nat \<Rightarrow> bool) \<Rightarrow> (nat \<Rightarrow> bool) \<Rightarrow> ustr \<Rightarrow> ustr list" where
  \<comment> \<open>\<open>re.findall\<close> of the pattern: the groups of the non-overlapping matches, found
      from left to right\<close>
  "extract_matches dg sp [] = []"
| "extract_matches dg sp (c # rest) =
     (if c = 51228
      then (case match_clause_at dg sp rest of
              Some (ds, after) \<Rightarrow> ds # extract_matches dg sp after
            | None \<Rightarrow> extract_matches dg sp rest)
      else extract_matches dg sp rest)"
  by pat_completeness auto
termination
proof -
  have shorter: "length after < Suc (length rest)"
    if "dropWhile sp (dropWhile dg (dropWhile sp rest)) = k # after"
    for sp dg :: "nat \<Rightarrow> bool" and rest after :: ustr and k
  proof -
    have "length (dropWhile sp (dropWhile dg (dropWhile sp rest))) \<le> length rest"
      by (meson length_dropWhile_le order_trans)
    then show ?thesis unfolding that by simp
  qed
  show ?thesis
    by (relation "measure (\<lambda>(dg, sp, s). length s)")
       (auto simp: match_clause_at_def Let_def split: list.splits if_splits dest: shorter)
qed

definition extract_clause_numbers :: "(nat \<Rightarrow> bool) \<Rightarrow> (nat \<Rightarrow> bool) \<Rightarrow> ustr \<Rightarrow> ustr list" where
  \<comment> \<open>\<open>list(set(...))\<close>: the distinct normalised clause numbers; Python leaves their
      order unspecified, the model keeps the order of first mention\<close>
  "extract_clause_numbers dg sp answer =
     remdups (map (\<lambda>num. 51228 # num @ [51312]) (extract_matches dg sp answer))"

definition existing_clauses :: "store \<Rightarrow> ustr list \<Rightarrow> ustr list" where
  \<comment> \<open>\<open>SELECT DISTINCT clause_number FROM document_chunks
      WHERE clause_number = ANY(:clauses)\<close>\<close>
  "existing_clauses st clauses =
     remdups (concat (map (\<lambda>row. case row_clause_number row of
                                    None \<Rightarrow> []
                                  | Some c \<Rightarrow> if c \<in> set clauses then [c] else [])
                          (chunks st)))"

function decimal :: "nat \<Rightarrow> ustr" where
  \<comment> \<open>\<open>str(n)\<close> of a length\<close>
  "decimal n = (if n < 10 then [48 + n] else decimal (n div 10) @ [48 + n mod 10])"
  by pat_completeness auto
termination
  by (relation "measure id") auto

definition check_clause_existence ::
  "(nat \<Rightarrow> bool) \<Rightarrow> (nat \<Rightarrow> bool) \<Rightarrow> ustr \<Rightarrow> session option \<Rightarrow> ValidationDetail" where
  "check_clause_existence dg sp answer sess =
     (let clause_numbers = extract_clause_numbers dg sp answer
      in if clause_numbers = []
         then \<lparr>check_name = [51312, 54637, 32, 51316, 51116, 32, 54869, 51064],
               passed = True, score = 1,
               details = Some [51312, 54637, 32, 48264, 54840, 32, 50630, 51020, 32, 40, 78,
                               47, 65, 41]\<rparr>
         else
           (case sess of
              None \<Rightarrow>
                \<lparr>check_name = [51312, 54637, 32, 51316, 51116, 32, 54869, 51064],
                 passed = True, score = 1 / 2,
                 details = Some [68, 66, 32, 49464, 49496, 32, 50630, 51020, 32, 40, 44160,
                                 51613, 32, 48520, 44032, 41]\<rparr>
            | Some (Failing e) \<Rightarrow>
                \<lparr>check_name = [51312, 54637, 32, 51316, 51116, 32, 54869, 51064],
                 passed = False, score = 1 / 2,
                 details = Some ([54869, 51064, 32, 50724, 47448, 58, 32] @ e)\<rparr>
            | Some (Connected st) \<Rightarrow>
                let existing = existing_clauses st clause_numbers;
                    missing = filter (\<lambda>c. c \<notin> set existing) clause_numbers;
                    result = of_nat (length existing) / of_nat (length clause_numbers);
                    counts = decimal (length existing) @ [47] @ decimal (length clause_numbers)
                in \<lparr>check_name = [51312, 54637, 32, 51316, 51116, 32, 54869, 51064],
                    passed = (result \<ge> 8 / 10), score = result,
                    details =
                      Some (if missing \<noteq> []
                            then counts @ [32, 51312, 54637, 32, 51316, 51116, 44, 32, 48120,
                                           51316, 51116, 58, 32] @ join [44, 32] (sort missing)
                            else counts @ [32, 51312, 54637, 32, 47784, 46160, 32, 51316,
                                           51116])\<rparr>))"

definition mention :: "(nat \<Rightarrow> bool) \<Rightarrow> (nat \<Rightarrow> bool) \<Rightarrow> ustr \<Rightarrow> ustr \<Rightarrow> bool" where
  \<comment> \<open>the number \<open>ds\<close> is mentioned in a text: the syllable 51228, white space, the
      digits \<open>ds\<close>, white space and the syllable 51312 stand somewhere in it\<close>
  "mention dg sp ds s =
     (\<exists>pre sp1 sp2 post.
        s = pre @ [51228] @ sp1 @ ds @ sp2 @ [51312] @ post \<and>
        ds \<noteq> [] \<and> list_all dg ds \<and> list_all sp sp1 \<and> list_all sp sp2)"

definition found_in_active_documents :: "store \<Rightarrow> ustr list \<Rightarrow> ustr list" where
  \<comment> \<open>the reading of the specification: the clause numbers that a chunk of a document
      with status active carries\<close>
  "found_in_active_documents st clauses =
     filter (\<lambda>c. \<exists>row \<in> set (chunks st).
                    row_clause_number row = Some c \<and>
                    (\<exists>d \<in> set (documents st).
                       doc_id d = row_document_id row \<and> doc_status d = ''active''))
            clauses"

definition ascii_digit :: "nat \<Rightarrow> bool" where
  \<comment> \<open>the ASCII members of \<open>\d\<close>\<close>
  "ascii_digit c = (48 \<le> c \<and> c \<le> 57)"

definition ascii_space :: "nat \<Rightarrow> bool" where
  \<comment> \<open>the ASCII members of \<open>\s\<close>\<close>
  "ascii_space c = (c = 32 \<or> (9 \<le> c \<and> c \<le> 13) \<or> (28 \<le> c \<and> c \<le> 31))"

section \<open>A store of three consecutive chunks\<close>

text \<open>
  A document with status active and three chunks with the consecutive indices 0, 1 and 2,
  whose contents are the single letters A, B and C, and the search result for the first
  chunk. They are the input of a trace through the judge and the expander.
\<close>

definition three_chunk_store :: store where
  "three_chunk_store =
     \<lparr>chunks =
        [\<lparr>row_id = 10, row_document_id = 1, row_chunk_index = 0, row_content = [65],
          row_chunk_type = [116], row_page_number = None, row_section_title = None,
          row_clause_number = None, row_metadata = None\<rparr>,
         \<lparr>row_id = 11, row_document_id = 1, row_chunk_index = 1, row_content = [66],
          row_chunk_type = [116], row_page_number = None, row_section_title = None,
          row_clause_number = None, row_metadata = None\<rparr>,
         \<lparr>row_id = 12, row_document_id = 1, row_chunk_index = 2, row_content = [67],
          row_chunk_type = [116], row_page_number = None, row_section_title = None,
          row_clause_number = None, row_metadata = None\<rparr>],
      documents =
        [\<lparr>doc_id = 1, doc_filename = None, doc_type = None, doc_company_name = None,
          doc_status = ''active''\<rparr>]\<rparr>"

definition first_chunk_hit :: VectorSearchResult where
  "first_chunk_hit =
     \<lparr>chunk_id = 10, document_id = 1, content = [65], similarity = 1 / 61,
      chunk_type = [116], page_number = None, section_title = None, clause_number = None,
      metadata = [], document_filename = None, document_type = None, company_name = None\<rparr>"

definition complete_report :: "ustr \<Rightarrow> completeness" where
  \<comment> \<open>a structure analysis that finds every chunk complete\<close>
  "complete_report body =
     \<lparr>is_complete = True, direction = None, front_issues = [], back_issues = [],
      reasons = []\<rparr>"

definition expand_again :: llm_check where
  \<comment> \<open>the language model finds the context insufficient and names chunk 10\<close>
  "expand_again = \<lparr>is_sufficient = False, llm_chunks_to_expand = [10]\<rparr>"

definition judge_then_expand :: "ISPLState \<Rightarrow> ISPLState" where
  \<comment> \<open>one round of the loop: the judge with that answer, then the expander on the store\<close>
  "judge_then_expand st =
     expand length ascii_digit ascii_space (Inr (Connected three_chunk_store))
       (judge length ascii_lower (\<lambda>s. [s]) complete_report expand_again st)"

section \<open>Properties\<close>

subsection \<open>Dictionaries\<close>

lemma map_of_dict_set:
  "map_of (dict_set d k v) k' = (if k' = k then Some v else map_of d k')"
  by (induction d) auto

lemma map_fst_dict_set:
  "map fst (dict_set d k v) = (if k \<in> fst ` set d then map fst d else map fst d @ [k])"
proof (induction d)
  case Nil
  show ?case by simp
next
  case (Cons p d)
  obtain k' v' where p: "p = (k', v')" by (cases p)
  show ?case
  proof (cases "k' = k")
    case True
    with p show ?thesis by simp
  next
    case False
    with p Cons.IH show ?thesis by (cases "k \<in> fst ` set d") auto
  qed
qed

lemma keys_dict_set: "fst ` set (dict_set d k v) = insert k (fst ` set d)"
proof -
  have "set (map fst (dict_set d k v)) = insert k (set (map fst d))"
    unfolding map_fst_dict_set by auto
  then show ?thesis by simp
qed


subsection \<open>Reducer of the task results\<close>

lemma map_of_dict_update:
  "map_of (dict_update d r) k =
     (case map_of (rev r) k of None \<Rightarrow> map_of d k | Some v \<Rightarrow> Some v)"
  unfolding dict_update_def
proof (induction r arbitrary: d)
  case Nil
  show ?case by simp
next
  case (Cons p r)
  obtain k' v' where p: "p = (k', v')" by (cases p)
  show ?case
    by (simp add: p Cons.IH map_of_dict_set map_add_def split: option.splits)
qed

lemma keys_dict_update:
  "fst ` set (dict_update d r) = fst ` set d \<union> fst ` set r"
  unfolding dict_update_def
proof (induction r arbitrary: d)
  case Nil
  show ?case by simp
next
  case (Cons p r)
  obtain k' v' where p: "p = (k', v')" by (cases p)
  show ?case by (simp add: p Cons.IH keys_dict_set)
qed

lemma merge_dicts_items: "merge_dicts left right = dict_update (items left) (items right)"
  by (cases left; cases right)
     (auto simp: merge_dicts_def truthy_def items_def dict_update_def)

lemma map_of_rev_distinct:
  "distinct (map fst r) \<Longrightarrow> map_of (rev r) = map_of r"
  by (rule map_of_inject_set [THEN iffD2]) (simp_all add: rev_map [symmetric])

text \<open>
  C9, as amended. The reducer \<open>merge_dicts\<close> is a right-biased merge: every key of the
  earlier dict is still a key afterwards, a key that the update does not mention keeps
  its earlier value, and a key that the update mentions takes the update's value, also
  when the earlier dict already had it.
\<close>

theorem merge_dicts_right_biased:
  "distinct (map fst (items right)) \<Longrightarrow>
     fst ` set (items left) \<subseteq> fst ` set (merge_dicts left right) \<and>
     (k \<notin> fst ` set (items right) \<longrightarrow>
        map_of (merge_dicts left right) k = map_of (items left) k) \<and>
     ((k, v) \<in> set (items right) \<longrightarrow> map_of (merge_dicts left right) k = Some v)"
proof (intro conjI impI)
  show "fst ` set (items left) \<subseteq> fst ` set (merge_dicts left right)"
    by (simp add: merge_dicts_items keys_dict_update)
next
  assume "k \<notin> fst ` set (items right)"
  then have "map_of (rev (items right)) k = None" by (simp add: map_of_eq_None_iff)
  then show "map_of (merge_dicts left right) k = map_of (items left) k"
    by (simp add: merge_dicts_items map_of_dict_update)
next
  assume d: "distinct (map fst (items right))" and m: "(k, v) \<in> set (items right)"
  from d m have "map_of (items right) k = Some v" by simp
  with d have "map_of (rev (items right)) k = Some v" by (simp add: map_of_rev_distinct)
  then show "map_of (merge_dicts left right) k = Some v"
    by (simp add: merge_dicts_items map_of_dict_update)
qed

theorem merge_dicts_right_biased_witness:
  "distinct (map fst (items (Some [(''chunk_expansion'', 1::nat)]))) \<and>
   map_of (merge_dicts (Some [(''search'', 0), (''context_judgement'', 0)])
                       (Some [(''chunk_expansion'', 1::nat)])) ''search'' = Some 0 \<and>
   map_of (merge_dicts (Some [(''search'', 0), (''context_judgement'', 0)])
                       (Some [(''chunk_expansion'', 1::nat)])) ''chunk_expansion'' = Some 1"
  using merge_dicts_right_biased
    [of "Some [(''chunk_expansion'', 1::nat)]" "Some [(''search'', 0), (''context_judgement'', 0)]"
        "''search''" 1]
    merge_dicts_right_biased
    [of "Some [(''chunk_expansion'', 1::nat)]" "Some [(''search'', 0), (''context_judgement'', 0)]"
        "''chunk_expansion''" 1]
  by (simp add: items_def)

text \<open>
  C9, as stated, fails: the context judge writes the key \<open>context_judgement\<close> at every
  round, and the second write replaces the entry of the first.
\<close>

theorem merge_dicts_overwrites_counterexample:
  "map_of [(''context_judgement'', 0::nat)] ''context_judgement'' = Some 0 \<and>
   map_of (merge_dicts (Some [(''context_judgement'', 0::nat)])
                       (Some [(''context_judgement'', 1)])) ''context_judgement'' \<noteq> Some 0"
  by (simp add: merge_dicts_def truthy_def dict_update_def)

subsection \<open>Relevance gate\<close>

text \<open>
  C10. With an empty keyword list the keyword relevance check answers True for every
  content and every threshold, so \<open>should_expand_chunk\<close> asks for the expansion of
  every chunk that the structure analysis reports as incomplete.
\<close>

theorem relevance_gate_open_without_keywords:
  "check_relevance_with_preprocessed lower [] body min_relevance \<and>
   (\<not> is_complete c \<longrightarrow> fst (should_expand_chunk lower [] body c))"
  by (simp add: check_relevance_with_preprocessed_def should_expand_chunk_def)

theorem relevance_gate_open_without_keywords_witness:
  "\<not> is_complete \<lparr>is_complete = False, direction = Some Next, front_issues = [],
                    back_issues = [[77]], reasons = []\<rparr> \<and>
   check_relevance_with_preprocessed ascii_lower [] [51228, 53, 51312] (3 / 10) \<and>
   fst (should_expand_chunk ascii_lower [] [51228, 53, 51312]
          \<lparr>is_complete = False, direction = Some Next, front_issues = [],
           back_issues = [[77]], reasons = []\<rparr>)"
  using relevance_gate_open_without_keywords
    [of ascii_lower "[51228, 53, 51312]" "3 / 10"
        "\<lparr>is_complete = False, direction = Some Next, front_issues = [],
          back_issues = [[77]], reasons = []\<rparr>"]
  by simp

subsection \<open>Validator confidence\<close>



subsection \<open>Router\<close>

lemma classify_intent_cases:
  "classify_intent lower q =
     (let u = keyword_score UPLOAD_KEYWORDS (lower q);
          m = keyword_score MANAGE_KEYWORDS (lower q);
          s = keyword_score SEARCH_KEYWORDS (lower q)
      in if u = 0 \<and> m = 0 \<and> s = 0 then Search
         else if m \<le> u \<and> s \<le> u then Upload
         else if s \<le> m then Manage
         else Search)"
  unfolding classify_intent_def Let_def max_key.simps snd_conv fst_conv
  by (simp split: if_splits)

text \<open>
  C8, as amended. The intent returned for a query is one whose keyword list scores the
  most hits in the lower-cased query. When the highest score is shared, upload wins over
  manage and search, and manage wins over search; when all three scores are zero the
  result is search.
\<close>

theorem classify_intent_highest_first:
  "(\<forall>i. keyword_score (keywords_of i) (lower q)
          \<le> keyword_score (keywords_of (classify_intent lower q)) (lower q)) \<and>
   classify_intent lower q =
     (if keyword_score UPLOAD_KEYWORDS (lower q) = 0 \<and>
         keyword_score MANAGE_KEYWORDS (lower q) = 0 \<and>
         keyword_score SEARCH_KEYWORDS (lower q) = 0 then Search
      else if keyword_score MANAGE_KEYWORDS (lower q)
                \<le> keyword_score UPLOAD_KEYWORDS (lower q) \<and>
              keyword_score SEARCH_KEYWORDS (lower q)
                \<le> keyword_score UPLOAD_KEYWORDS (lower q) then Upload
      else if keyword_score SEARCH_KEYWORDS (lower q)
                \<le> keyword_score MANAGE_KEYWORDS (lower q) then Manage
      else Search)"
proof (intro conjI allI)
  fix i
  show "keyword_score (keywords_of i) (lower q)
          \<le> keyword_score (keywords_of (classify_intent lower q)) (lower q)"
    by (cases i) (auto simp: classify_intent_cases keywords_of_def Let_def)
next
  show "classify_intent lower q =
     (if keyword_score UPLOAD_KEYWORDS (lower q) = 0 \<and>
         keyword_score MANAGE_KEYWORDS (lower q) = 0 \<and>
         keyword_score SEARCH_KEYWORDS (lower q) = 0 then Search
      else if keyword_score MANAGE_KEYWORDS (lower q)
                \<le> keyword_score UPLOAD_KEYWORDS (lower q) \<and>
              keyword_score SEARCH_KEYWORDS (lower q)
                \<le> keyword_score UPLOAD_KEYWORDS (lower q) then Upload
      else if keyword_score SEARCH_KEYWORDS (lower q)
                \<le> keyword_score MANAGE_KEYWORDS (lower q) then Manage
      else Search)"
    by (simp add: classify_intent_cases Let_def)
qed

lemma tie_query_scores:
  "keyword_score UPLOAD_KEYWORDS
     (ascii_lower [49352, 47196, 50868, 32, 50557, 44288, 51012, 32, 46321, 47197, 54644,
                   51452, 49464, 50836]) = 1"
  "keyword_score MANAGE_KEYWORDS
     (ascii_lower [49352, 47196, 50868, 32, 50557, 44288, 51012, 32, 46321, 47197, 54644,
                   51452, 49464, 50836]) = 0"
  "keyword_score SEARCH_KEYWORDS
     (ascii_lower [49352, 47196, 50868, 32, 50557, 44288, 51012, 32, 46321, 47197, 54644,
                   51452, 49464, 50836]) = 1"
  by (simp_all add: keyword_score_def UPLOAD_KEYWORDS_def MANAGE_KEYWORDS_def
      SEARCH_KEYWORDS_def ascii_lower_def)

theorem classify_intent_highest_first_witness:
  "classify_intent ascii_lower
     [49352, 47196, 50868, 32, 50557, 44288, 51012, 32, 46321, 47197, 54644, 51452, 49464,
      50836] = Upload"
  using classify_intent_highest_first
    [of ascii_lower "[49352, 47196, 50868, 32, 50557, 44288, 51012, 32, 46321, 47197, 54644,
                      51452, 49464, 50836]"]
  by (simp add: tie_query_scores)

text \<open>
  C8, as stated, fails on a tie. The query of the repository's own router test
  (code points of the request to register new terms and conditions) hits one upload
  keyword and one search keyword and no manage keyword; the router answers upload,
  not search.
\<close>

theorem classify_intent_tie_counterexample:
  "keyword_score UPLOAD_KEYWORDS
     (ascii_lower [49352, 47196, 50868, 32, 50557, 44288, 51012, 32, 46321, 47197, 54644,
                   51452, 49464, 50836])
   = keyword_score SEARCH_KEYWORDS
     (ascii_lower [49352, 47196, 50868, 32, 50557, 44288, 51012, 32, 46321, 47197, 54644,
                   51452, 49464, 50836]) \<and>
   keyword_score MANAGE_KEYWORDS
     (ascii_lower [49352, 47196, 50868, 32, 50557, 44288, 51012, 32, 46321, 47197, 54644,
                   51452, 49464, 50836])
   < keyword_score SEARCH_KEYWORDS
     (ascii_lower [49352, 47196, 50868, 32, 50557, 44288, 51012, 32, 46321, 47197, 54644,
                   51452, 49464, 50836]) \<and>
   classify_intent ascii_lower
     [49352, 47196, 50868, 32, 50557, 44288, 51012, 32, 46321, 47197, 54644, 51452, 49464,
      50836] \<noteq> Search"
  by (simp add: tie_query_scores classify_intent_cases)

subsection \<open>Context optimizer\<close>





subsection \<open>Reciprocal rank fusion\<close>















subsection \<open>Hybrid search\<close>










subsection \<open>Bounded expansion loop\<close>

lemma judge_sufficient_fields:
  "expansion_count (judge_sufficient st extra) = expansion_count st"
  "context_sufficient (judge_sufficient st extra) = Some True"
  "chunks_to_expand (judge_sufficient st extra) = []"
  "next_agent (judge_sufficient st extra) = ''answer_agent''"
  by (simp_all add: judge_sufficient_def)

lemma judge_expansion_count:
  "expansion_count (judge enc lower splt analyze llm st) = expansion_count st"
  unfolding judge_def Let_def by (simp add: judge_sufficient_fields)

lemma judge_forced:
  assumes "MAX_EXPANSION_COUNT \<le> expansion_count st"
  shows "context_sufficient (judge enc lower splt analyze llm st) = Some True"
    and "chunks_to_expand (judge enc lower splt analyze llm st) = []"
    and "next_agent (judge enc lower splt analyze llm st) = ''answer_agent''"
  using assms unfolding judge_def Let_def by (simp_all add: judge_sufficient_fields)

lemma expand_expansion_count:
  "expansion_count (expand enc dg sp outcome st) = expansion_count st + 1"
  unfolding expand_def Let_def by (cases outcome) simp_all

lemma route_expansion_count:
  "expansion_count (snd (route lower st)) = expansion_count st"
  "fst (route lower st) \<noteq> ExpandNode"
  unfolding route_def Let_def by (simp_all split: intent.splits option.splits)

lemma step_monotone:
  "step c c' \<Longrightarrow> expansion_count (snd c) \<le> expansion_count (snd c')"
proof (induction rule: step.induct)
  case (router_step st lower)
  show ?case by (simp add: route_expansion_count)
next
  case (judge_step st' enc lower split analyze llm st)
  then show ?case by (simp add: judge_expansion_count)
next
  case (expand_step st enc dg sp outcome)
  show ?case by (simp add: expand_expansion_count)
qed simp_all

lemma step_invariant:
  assumes "step c c'"
    and "expansion_count (snd c) \<le> MAX_EXPANSION_COUNT"
    and "fst c = ExpandNode \<longrightarrow> expansion_count (snd c) < MAX_EXPANSION_COUNT"
  shows "expansion_count (snd c') \<le> MAX_EXPANSION_COUNT \<and>
         (fst c' = ExpandNode \<longrightarrow> expansion_count (snd c') < MAX_EXPANSION_COUNT)"
  using assms
proof (induction rule: step.induct)
  case (router_step st lower)
  then show ?case by (simp add: route_expansion_count)
next
  case (judge_step st' enc lower split analyze llm st)
  have count: "expansion_count st' = expansion_count st"
    unfolding judge_step.hyps by (rule judge_expansion_count)
  have "expansion_count st < MAX_EXPANSION_COUNT" if "route_after_judgement st' = ExpandNode"
  proof (rule ccontr)
    assume "\<not> expansion_count st < MAX_EXPANSION_COUNT"
    then have "MAX_EXPANSION_COUNT \<le> expansion_count st" by simp
    from judge_forced(1) [OF this] have "context_sufficient st' = Some True"
      unfolding judge_step.hyps .
    with that show False by (simp add: route_after_judgement_def)
  qed
  with judge_step.prems count show ?case by simp
next
  case (expand_step st enc dg sp outcome)
  then show ?case by (simp add: expand_expansion_count)
qed simp_all

lemma reachable_invariant:
  assumes "step\<^sup>*\<^sup>* c0 c"
    and "expansion_count (snd c0) \<le> MAX_EXPANSION_COUNT"
    and "fst c0 = ExpandNode \<longrightarrow> expansion_count (snd c0) < MAX_EXPANSION_COUNT"
  shows "expansion_count (snd c) \<le> MAX_EXPANSION_COUNT \<and>
         (fst c = ExpandNode \<longrightarrow> expansion_count (snd c) < MAX_EXPANSION_COUNT)"
  using assms
proof (induction rule: rtranclp_induct)
  case base
  then show ?case by simp
next
  case (step y z)
  from step.IH [OF step.prems] step.hyps(2) show ?case
    using step_invariant by blast
qed

text \<open>
  C2. A request starts with expansion count 0; no step of the graph decreases the count;
  in every configuration that a request reaches the count is at most
  \<open>MAX_EXPANSION_COUNT\<close>, which is 3; and whenever the judge runs with a count of 3 or
  more it sets \<open>context_sufficient\<close> to True, empties \<open>chunks_to_expand\<close> and the
  graph routes to the answer agent.
\<close>

theorem expansion_loop_bounded:
  "expansion_count (create_initial_state q t) = 0 \<and>
   MAX_EXPANSION_COUNT = 3 \<and>
   (step c c' \<longrightarrow> expansion_count (snd c) \<le> expansion_count (snd c')) \<and>
   (step\<^sup>*\<^sup>* (RouterNode, create_initial_state q t) c \<longrightarrow>
      expansion_count (snd c) \<le> MAX_EXPANSION_COUNT) \<and>
   (MAX_EXPANSION_COUNT \<le> expansion_count st \<longrightarrow>
      context_sufficient (judge enc lower splt analyze llm st) = Some True \<and>
      chunks_to_expand (judge enc lower splt analyze llm st) = [] \<and>
      next_agent (judge enc lower splt analyze llm st) = ''answer_agent'' \<and>
      route_after_judgement (judge enc lower splt analyze llm st) = AnswerNode)"
proof (intro conjI impI)
  show "expansion_count (create_initial_state q t) = 0"
    by (simp add: create_initial_state_def)
  show "MAX_EXPANSION_COUNT = 3" by (simp add: MAX_EXPANSION_COUNT_def)
  show "expansion_count (snd c) \<le> expansion_count (snd c')" if "step c c'"
    using that by (rule step_monotone)
  show "expansion_count (snd c) \<le> MAX_EXPANSION_COUNT"
    if "step\<^sup>*\<^sup>* (RouterNode, create_initial_state q t) c"
    using reachable_invariant [OF that]
    by (simp add: create_initial_state_def MAX_EXPANSION_COUNT_def)
next
  assume full: "MAX_EXPANSION_COUNT \<le> expansion_count st"
  show "context_sufficient (judge enc lower splt analyze llm st) = Some True"
    by (rule judge_forced(1) [OF full])
  then show "route_after_judgement (judge enc lower splt analyze llm st) = AnswerNode"
    by (simp add: route_after_judgement_def)
  show "chunks_to_expand (judge enc lower splt analyze llm st) = []"
    by (rule judge_forced(2) [OF full])
  show "next_agent (judge enc lower splt analyze llm st) = ''answer_agent''"
    by (rule judge_forced(3) [OF full])
qed

theorem expansion_loop_bounded_witness:
  "expansion_count (create_initial_state [97] Search)
     \<le> expansion_count (snd (route ascii_lower (create_initial_state [97] Search))) \<and>
   expansion_count (snd (route ascii_lower (create_initial_state [97] Search)))
     \<le> MAX_EXPANSION_COUNT \<and>
   context_sufficient
     (judge length ascii_lower (\<lambda>s. [s])
        (\<lambda>s. \<lparr>is_complete = False, direction = Some Next, front_issues = [],
               back_issues = [[77]], reasons = []\<rparr>)
        \<lparr>is_sufficient = False, llm_chunks_to_expand = [1]\<rparr>
        ((create_initial_state [97] Search)
           \<lparr>search_results :=
              [\<lparr>chunk_id = 1, document_id = 1, content = [97], similarity = 1 / 61,
                chunk_type = [116], page_number = None, section_title = None,
                clause_number = None, metadata = [], document_filename = None,
                document_type = None, company_name = None\<rparr>],
            expansion_count := 3\<rparr>)) = Some True \<and>
   route_after_judgement
     (judge length ascii_lower (\<lambda>s. [s])
        (\<lambda>s. \<lparr>is_complete = False, direction = Some Next, front_issues = [],
               back_issues = [[77]], reasons = []\<rparr>)
        \<lparr>is_sufficient = False, llm_chunks_to_expand = [1]\<rparr>
        ((create_initial_state [97] Search)
           \<lparr>search_results :=
              [\<lparr>chunk_id = 1, document_id = 1, content = [97], similarity = 1 / 61,
                chunk_type = [116], page_number = None, section_title = None,
                clause_number = None, metadata = [], document_filename = None,
                document_type = None, company_name = None\<rparr>],
            expansion_count := 3\<rparr>)) = AnswerNode"
proof -
  define init where "init = create_initial_state [97] Search"
  define st3 where "st3 = init
           \<lparr>search_results :=
              [\<lparr>chunk_id = 1, document_id = 1, content = [97], similarity = 1 / 61,
                chunk_type = [116], page_number = None, section_title = None,
                clause_number = None, metadata = [], document_filename = None,
                document_type = None, company_name = None\<rparr>],
            expansion_count := 3\<rparr>"
  have s: "step (RouterNode, init) (route ascii_lower init)"
    by (rule step.router_step)
  then have r: "step\<^sup>*\<^sup>* (RouterNode, init) (route ascii_lower init)"
    by (rule r_into_rtranclp)
  have f: "MAX_EXPANSION_COUNT \<le> expansion_count st3"
    by (simp add: st3_def MAX_EXPANSION_COUNT_def)
  note inst = expansion_loop_bounded
    [where q = "[97]" and t = Search and c = "(RouterNode, init)"
       and c' = "route ascii_lower init" and st = st3 and enc = length
       and lower = ascii_lower and splt = "\<lambda>s. [s]"
       and analyze = "\<lambda>s. \<lparr>is_complete = False, direction = Some Next, front_issues = [],
               back_issues = [[77]], reasons = []\<rparr>"
       and llm = "\<lparr>is_sufficient = False, llm_chunks_to_expand = [1]\<rparr>"]
  have mono: "expansion_count init \<le> expansion_count (snd (route ascii_lower init))"
    using inst s by simp
  have bound: "expansion_count (snd (route ascii_lower init)) \<le> MAX_EXPANSION_COUNT"
  proof -
    have "step\<^sup>*\<^sup>* (RouterNode, create_initial_state [97] Search)
            (route ascii_lower init)"
      using r by (simp add: init_def)
    with expansion_loop_bounded
      [where q = "[97]" and t = Search and c = "route ascii_lower init"]
    show ?thesis by blast
  qed
  have forced: "context_sufficient
     (judge length ascii_lower (\<lambda>s. [s])
        (\<lambda>s. \<lparr>is_complete = False, direction = Some Next, front_issues = [],
               back_issues = [[77]], reasons = []\<rparr>)
        \<lparr>is_sufficient = False, llm_chunks_to_expand = [1]\<rparr> st3) = Some True \<and>
     route_after_judgement
     (judge length ascii_lower (\<lambda>s. [s])
        (\<lambda>s. \<lparr>is_complete = False, direction = Some Next, front_issues = [],
               back_issues = [[77]], reasons = []\<rparr>)
        \<lparr>is_sufficient = False, llm_chunks_to_expand = [1]\<rparr> st3) = AnswerNode"
    using inst f by blast
  from mono bound forced show ?thesis
    unfolding st3_def init_def by blast
qed

subsection \<open>Clause existence\<close>

lemma match_clause_at_sound:
  assumes "match_clause_at dg sp rest = Some (ds, after)"
  shows "\<exists>sp1 sp2. rest = sp1 @ ds @ sp2 @ 51312 # after \<and> ds \<noteq> [] \<and> list_all dg ds \<and>
                   list_all sp sp1 \<and> list_all sp sp2"
proof -
  let ?r1 = "dropWhile sp rest"
  let ?r2 = "dropWhile dg ?r1"
  from assms have ds: "ds = takeWhile dg ?r1" and ne: "ds \<noteq> []"
    and r3: "dropWhile sp ?r2 = 51312 # after"
    by (auto simp: match_clause_at_def Let_def split: list.splits if_splits)
  have "rest = takeWhile sp rest @ ?r1" by simp
  also have "?r1 = ds @ ?r2" unfolding ds by simp
  also have "?r2 = takeWhile sp ?r2 @ 51312 # after" unfolding r3 [symmetric] by simp
  finally have "rest = takeWhile sp rest @ ds @ takeWhile sp ?r2 @ 51312 # after" .
  moreover have "list_all dg ds" unfolding ds list_all_iff by (auto dest: set_takeWhileD)
  moreover have "list_all sp (takeWhile sp rest)" "list_all sp (takeWhile sp ?r2)"
    unfolding list_all_iff by (auto dest: set_takeWhileD)
  ultimately show ?thesis using ne by blast
qed

lemma match_clause_at_complete:
  assumes classes: "\<forall>c. \<not> (dg c \<and> sp c)" "\<not> dg 51312" "\<not> sp 51312"
    and shape: "rest = sp1 @ ds @ sp2 @ 51312 # after" "ds \<noteq> []" "list_all dg ds"
      "list_all sp sp1" "list_all sp sp2"
  shows "match_clause_at dg sp rest = Some (ds, after)"
proof -
  from shape(2) obtain d ds' where ds: "ds = d # ds'" by (cases ds) auto
  with shape(3) have "dg d" by simp
  with classes(1) have nsp: "\<not> sp d" by blast
  have r1: "dropWhile sp rest = ds @ sp2 @ 51312 # after"
  proof -
    have "dropWhile sp rest = dropWhile sp (ds @ sp2 @ 51312 # after)"
      unfolding shape(1) using shape(4) by (simp add: dropWhile_append2 list_all_iff)
    also have "\<dots> = ds @ sp2 @ 51312 # after" unfolding ds using nsp by simp
    finally show ?thesis .
  qed
  have stop: "takeWhile dg (sp2 @ 51312 # after) = []"
       "dropWhile dg (sp2 @ 51312 # after) = sp2 @ 51312 # after"
  proof -
    have "\<not> dg (hd (sp2 @ 51312 # after))"
    proof (cases sp2)
      case Nil
      with classes(2) show ?thesis by simp
    next
      case (Cons x xs)
      with shape(5) have "sp x" by simp
      with classes(1) Cons show ?thesis by auto
    qed
    then show "takeWhile dg (sp2 @ 51312 # after) = []"
      "dropWhile dg (sp2 @ 51312 # after) = sp2 @ 51312 # after"
      by (cases "sp2 @ 51312 # after"; simp)+
  qed
  have tk: "takeWhile dg (ds @ sp2 @ 51312 # after) = ds"
    using shape(3) stop(1) by (simp add: takeWhile_append2 list_all_iff)
  have dr: "dropWhile dg (ds @ sp2 @ 51312 # after) = sp2 @ 51312 # after"
    using shape(3) stop(2) by (simp add: dropWhile_append2 list_all_iff)
  have r3: "dropWhile sp (sp2 @ 51312 # after) = 51312 # after"
    using shape(5) classes(3) by (simp add: dropWhile_append2 list_all_iff)
  show ?thesis
    unfolding match_clause_at_def Let_def r1 tk dr r3 using shape(2) by simp
qed

lemma mention_append: "mention dg sp ds s \<Longrightarrow> mention dg sp ds (xs @ s)"
proof -
  assume "mention dg sp ds s"
  then obtain pre sp1 sp2 post where
    "s = pre @ [51228] @ sp1 @ ds @ sp2 @ [51312] @ post" "ds \<noteq> []" "list_all dg ds"
    "list_all sp sp1" "list_all sp sp2"
    unfolding mention_def by blast
  then have "xs @ s = (xs @ pre) @ [51228] @ sp1 @ ds @ sp2 @ [51312] @ post \<and> ds \<noteq> [] \<and>
             list_all dg ds \<and> list_all sp sp1 \<and> list_all sp sp2"
    by simp
  then show ?thesis unfolding mention_def by blast
qed

lemma mention_Cons: "mention dg sp ds s \<Longrightarrow> mention dg sp ds (c # s)"
  using mention_append [of dg sp ds s "[c]"] by simp

lemma extract_matches_sound:
  "ds \<in> set (extract_matches dg sp s) \<Longrightarrow> mention dg sp ds s"
proof (induction dg sp s rule: extract_matches.induct)
  case (1 dg sp)
  then show ?case by simp
next
  case (2 dg sp c rest)
  show ?case
  proof (cases "c = 51228")
    case False
    with "2.prems" have "ds \<in> set (extract_matches dg sp rest)" by simp
    with "2.IH" False have "mention dg sp ds rest" by blast
    then show ?thesis by (rule mention_Cons)
  next
    case True
    show ?thesis
    proof (cases "match_clause_at dg sp rest")
      case None
      with True "2.prems" have "ds \<in> set (extract_matches dg sp rest)" by simp
      with "2.IH" True None have "mention dg sp ds rest" by blast
      then show ?thesis by (rule mention_Cons)
    next
      case (Some x)
      obtain ds0 after where x: "x = (ds0, after)" by (cases x)
      from match_clause_at_sound [OF Some [unfolded x]]
      obtain sp1 sp2 where shape: "rest = sp1 @ ds0 @ sp2 @ 51312 # after" "ds0 \<noteq> []"
        "list_all dg ds0" "list_all sp sp1" "list_all sp sp2"
        by blast
      from True Some x "2.prems" have "ds = ds0 \<or> ds \<in> set (extract_matches dg sp after)"
        by simp
      then show ?thesis
      proof
        assume "ds = ds0"
        with shape True have "c # rest = [] @ [51228] @ sp1 @ ds @ sp2 @ [51312] @ after \<and>
            ds \<noteq> [] \<and> list_all dg ds \<and> list_all sp sp1 \<and> list_all sp sp2"
          by simp
        then show ?thesis unfolding mention_def by blast
      next
        assume "ds \<in> set (extract_matches dg sp after)"
        with "2.IH" True Some x have "mention dg sp ds after" by blast
        then have "mention dg sp ds ((c # sp1 @ ds0 @ sp2 @ [51312]) @ after)"
          by (rule mention_append)
        then show ?thesis unfolding shape(1) by simp
      qed
    qed
  qed
qed

lemma extract_matches_complete:
  assumes classes: "\<forall>c. \<not> (dg c \<and> sp c)" "\<not> dg 51312" "\<not> sp 51312" "\<not> dg 51228"
    "\<not> sp 51228"
  shows "mention dg sp ds s \<Longrightarrow> ds \<in> set (extract_matches dg sp s)"
  using classes
proof (induction dg sp s rule: extract_matches.induct)
  case (1 dg sp)
  then show ?case by (simp add: mention_def)
next
  case (2 dg sp c rest)
  note cl = "2.prems"(2-6)
  from "2.prems"(1) obtain pre sp1 sp2 post where
    s: "c # rest = pre @ [51228] @ sp1 @ ds @ sp2 @ [51312] @ post" and ne: "ds \<noteq> []"
    and dgs: "list_all dg ds" and s1: "list_all sp sp1" and s2: "list_all sp sp2"
    unfolding mention_def by blast
  show ?case
  proof (cases pre)
    case Nil
    with s have c: "c = 51228" and rest: "rest = sp1 @ ds @ sp2 @ 51312 # post" by simp_all
    from match_clause_at_complete [OF cl(1-3) rest ne dgs s1 s2]
    have "match_clause_at dg sp rest = Some (ds, post)" .
    with c show ?thesis by simp
  next
    case (Cons p pre')
    with s have rest: "rest = pre' @ 51228 # sp1 @ ds @ sp2 @ 51312 # post" by simp
    with ne dgs s1 s2 have m_rest: "mention dg sp ds rest"
      unfolding mention_def by (intro exI [of _ pre'] exI [of _ sp1] exI [of _ sp2]
          exI [of _ post]) simp
    show ?thesis
    proof (cases "c = 51228")
      case False
      with "2.IH" m_rest cl show ?thesis by simp
    next
      case True
      show ?thesis
      proof (cases "match_clause_at dg sp rest")
        case None
        with "2.IH" True m_rest cl have "ds \<in> set (extract_matches dg sp rest)" by blast
        with True None show ?thesis by simp
      next
        case (Some x)
        obtain ds0 after where x: "x = (ds0, after)" by (cases x)
        from match_clause_at_sound [OF Some [unfolded x]]
        obtain a1 a2 where shape: "rest = a1 @ ds0 @ a2 @ 51312 # after"
          "list_all dg ds0" "list_all sp a1" "list_all sp a2"
          by blast
        let ?X = "a1 @ ds0 @ a2 @ [51312]"
        let ?tail = "sp1 @ ds @ sp2 @ 51312 # post"
        have notin: "51228 \<notin> set ?X"
          using shape(2-4) cl(4,5) by (auto simp: list_all_iff)
        have "?X @ after = pre' @ 51228 # ?tail" using rest shape(1) by simp
        then obtain us where
          "(?X = pre' @ us \<and> us @ after = 51228 # ?tail) \<or>
           (?X @ us = pre' \<and> after = us @ 51228 # ?tail)"
          unfolding append_eq_append_conv2 by blast
        then have "\<exists>pre''. after = pre'' @ 51228 # ?tail"
        proof
          assume a: "?X = pre' @ us \<and> us @ after = 51228 # ?tail"
          show ?thesis
          proof (cases us)
            case Nil
            with a show ?thesis by auto
          next
            case (Cons u us')
            with a have "u = 51228" by simp
            with Cons a have "51228 \<in> set ?X" by (metis in_set_conv_decomp)
            with notin show ?thesis by contradiction
          qed
        next
          assume "?X @ us = pre' \<and> after = us @ 51228 # ?tail"
          then show ?thesis by blast
        qed
        then obtain pre'' where "after = pre'' @ [51228] @ sp1 @ ds @ sp2 @ [51312] @ post"
          by auto
        with ne dgs s1 s2 have "mention dg sp ds after" unfolding mention_def by blast
        with "2.IH" True Some x cl have "ds \<in> set (extract_matches dg sp after)" by blast
        with True Some x show ?thesis by simp
      qed
    qed
  qed
qed

lemma set_existing_clauses:
  "set (existing_clauses st cs) =
     {c \<in> set cs. \<exists>row \<in> set (chunks st). row_clause_number row = Some c}"
  unfolding existing_clauses_def by (auto split: option.splits if_splits)

lemma length_existing_clauses:
  "length (existing_clauses st cs) =
     card {c \<in> set cs. \<exists>row \<in> set (chunks st). row_clause_number row = Some c}"
proof -
  have "distinct (existing_clauses st cs)" unfolding existing_clauses_def by simp
  then have "length (existing_clauses st cs) = card (set (existing_clauses st cs))"
    by (simp add: distinct_card)
  then show ?thesis unfolding set_existing_clauses .
qed

lemma check_clause_existence_connected:
  assumes "extract_clause_numbers dg sp answer \<noteq> []"
  shows "score (check_clause_existence dg sp answer (Some (Connected st))) =
           of_nat (length (existing_clauses st (extract_clause_numbers dg sp answer)))
             / of_nat (length (extract_clause_numbers dg sp answer))"
    and "passed (check_clause_existence dg sp answer (Some (Connected st))) =
           (score (check_clause_existence dg sp answer (Some (Connected st))) \<ge> 8 / 10)"
  using assms unfolding check_clause_existence_def Let_def by simp_all

text \<open>
  C7, as amended. Every mention of a clause number in the answer (the syllable 51228,
  optional white space, digits, optional white space, the syllable 51312) is extracted,
  and nothing else is, each number once. When the answer mentions no clause the axis
  scores 1 and passes. Otherwise, without a session, or when the query raises, the axis
  scores 0.5; with a session the score is the number of mentioned clause numbers that a
  row of \<open>document_chunks\<close> carries, whatever the status of its document, divided by
  the number of mentioned clause numbers, and the axis passes exactly when the score is
  at least 0.8.
\<close>

theorem clause_existence_check:
  assumes "\<forall>c. \<not> (dg c \<and> sp c)" "\<not> dg 51312" "\<not> sp 51312" "\<not> dg 51228" "\<not> sp 51228"
  shows
    "set (extract_clause_numbers dg sp answer)
       = (\<lambda>ds. 51228 # ds @ [51312]) ` {ds. mention dg sp ds answer} \<and>
     distinct (extract_clause_numbers dg sp answer) \<and>
     (extract_clause_numbers dg sp answer = [] \<longrightarrow>
        score (check_clause_existence dg sp answer sess) = 1 \<and>
        passed (check_clause_existence dg sp answer sess)) \<and>
     (extract_clause_numbers dg sp answer \<noteq> [] \<longrightarrow>
        score (check_clause_existence dg sp answer None) = 1 / 2 \<and>
        score (check_clause_existence dg sp answer (Some (Failing e))) = 1 / 2 \<and>
        score (check_clause_existence dg sp answer (Some (Connected st))) =
          of_nat (card {c \<in> set (extract_clause_numbers dg sp answer).
                        \<exists>row \<in> set (chunks st). row_clause_number row = Some c})
            / of_nat (card (set (extract_clause_numbers dg sp answer))) \<and>
        passed (check_clause_existence dg sp answer (Some (Connected st))) =
          (score (check_clause_existence dg sp answer (Some (Connected st))) \<ge> 8 / 10))"
proof (intro conjI impI)
  have "set (extract_matches dg sp answer) = {ds. mention dg sp ds answer}"
    using extract_matches_sound extract_matches_complete [OF assms] by blast
  then show "set (extract_clause_numbers dg sp answer)
       = (\<lambda>ds. 51228 # ds @ [51312]) ` {ds. mention dg sp ds answer}"
    unfolding extract_clause_numbers_def by simp
  show d: "distinct (extract_clause_numbers dg sp answer)"
    unfolding extract_clause_numbers_def by simp
  {
    assume "extract_clause_numbers dg sp answer = []"
    then show "score (check_clause_existence dg sp answer sess) = 1"
      and "passed (check_clause_existence dg sp answer sess)"
      unfolding check_clause_existence_def Let_def by simp_all
  }
  {
    assume ne: "extract_clause_numbers dg sp answer \<noteq> []"
    then show "score (check_clause_existence dg sp answer None) = 1 / 2"
      and "score (check_clause_existence dg sp answer (Some (Failing e))) = 1 / 2"
      unfolding check_clause_existence_def Let_def by simp_all
    have "length (extract_clause_numbers dg sp answer)
            = card (set (extract_clause_numbers dg sp answer))"
      using d by (simp add: distinct_card)
    with check_clause_existence_connected(1) [OF ne, of st]
    show "score (check_clause_existence dg sp answer (Some (Connected st))) =
          of_nat (card {c \<in> set (extract_clause_numbers dg sp answer).
                        \<exists>row \<in> set (chunks st). row_clause_number row = Some c})
            / of_nat (card (set (extract_clause_numbers dg sp answer)))"
      by (simp add: length_existing_clauses)
    show "passed (check_clause_existence dg sp answer (Some (Connected st))) =
          (score (check_clause_existence dg sp answer (Some (Connected st))) \<ge> 8 / 10)"
      by (rule check_clause_existence_connected(2) [OF ne])
  }
qed

lemma ascii_classes:
  "\<forall>c. \<not> (ascii_digit c \<and> ascii_space c)" "\<not> ascii_digit 51312" "\<not> ascii_space 51312"
  "\<not> ascii_digit 51228" "\<not> ascii_space 51228"
  by (auto simp: ascii_digit_def ascii_space_def)

lemma extract_clause_five:
  "extract_clause_numbers ascii_digit ascii_space [51228, 53, 51312] = [[51228, 53, 51312]]"
  by (simp add: extract_clause_numbers_def match_clause_at_def ascii_digit_def ascii_space_def)

theorem clause_existence_check_witness:
  "extract_clause_numbers ascii_digit ascii_space [51228, 53, 51312] \<noteq> [] \<and>
   score (check_clause_existence ascii_digit ascii_space [51228, 53, 51312] None) = 1 / 2 \<and>
   score (check_clause_existence ascii_digit ascii_space [51228, 53, 51312]
            (Some (Failing [120]))) = 1 / 2"
proof -
  have ne: "extract_clause_numbers ascii_digit ascii_space [51228, 53, 51312] \<noteq> []"
    by (simp add: extract_clause_five)
  from clause_existence_check
    [OF ascii_classes, of "[51228, 53, 51312]" None "[120]" "\<lparr>chunks = [], documents = []\<rparr>"] ne
  show ?thesis by blast
qed

text \<open>
  C7, as stated, fails on the store it queries. The answer mentions one clause number;
  the only chunk that carries it belongs to a document whose status is inactive. No
  active document has the clause, yet the axis scores 1 and passes.
\<close>

theorem clause_existence_inactive_counterexample:
  "found_in_active_documents
     \<lparr>chunks = [\<lparr>row_id = 1, row_document_id = 1, row_chunk_index = 0, row_content = [97],
                 row_chunk_type = [116], row_page_number = None, row_section_title = None,
                 row_clause_number = Some [51228, 53, 51312], row_metadata = None\<rparr>],
      documents = [\<lparr>doc_id = 1, doc_filename = None, doc_type = None,
                    doc_company_name = None, doc_status = ''inactive''\<rparr>]\<rparr>
     (extract_clause_numbers ascii_digit ascii_space [51228, 53, 51312]) = [] \<and>
   score (check_clause_existence ascii_digit ascii_space [51228, 53, 51312]
     (Some (Connected
        \<lparr>chunks = [\<lparr>row_id = 1, row_document_id = 1, row_chunk_index = 0, row_content = [97],
                    row_chunk_type = [116], row_page_number = None, row_section_title = None,
                    row_clause_number = Some [51228, 53, 51312], row_metadata = None\<rparr>],
         documents = [\<lparr>doc_id = 1, doc_filename = None, doc_type = None,
                       doc_company_name = None, doc_status = ''inactive''\<rparr>]\<rparr>)))
   \<noteq> of_nat (length (found_in_active_documents
        \<lparr>chunks = [\<lparr>row_id = 1, row_document_id = 1, row_chunk_index = 0, row_content = [97],
                    row_chunk_type = [116], row_page_number = None, row_section_title = None,
                    row_clause_number = Some [51228, 53, 51312], row_metadata = None\<rparr>],
         documents = [\<lparr>doc_id = 1, doc_filename = None, doc_type = None,
                       doc_company_name = None, doc_status = ''inactive''\<rparr>]\<rparr>
        (extract_clause_numbers ascii_digit ascii_space [51228, 53, 51312])))
     / of_nat (length (extract_clause_numbers ascii_digit ascii_space [51228, 53, 51312])) \<and>
   score (check_clause_existence ascii_digit ascii_space [51228, 53, 51312]
     (Some (Connected
        \<lparr>chunks = [\<lparr>row_id = 1, row_document_id = 1, row_chunk_index = 0, row_content = [97],
                    row_chunk_type = [116], row_page_number = None, row_section_title = None,
                    row_clause_number = Some [51228, 53, 51312], row_metadata = None\<rparr>],
         documents = [\<lparr>doc_id = 1, doc_filename = None, doc_type = None,
                       doc_company_name = None, doc_status = ''inactive''\<rparr>]\<rparr>))) = 1 \<and>
   passed (check_clause_existence ascii_digit ascii_space [51228, 53, 51312]
     (Some (Connected
        \<lparr>chunks = [\<lparr>row_id = 1, row_document_id = 1, row_chunk_index = 0, row_content = [97],
                    row_chunk_type = [116], row_page_number = None, row_section_title = None,
                    row_clause_number = Some [51228, 53, 51312], row_metadata = None\<rparr>],
         documents = [\<lparr>doc_id = 1, doc_filename = None, doc_type = None,
                       doc_company_name = None, doc_status = ''inactive''\<rparr>]\<rparr>)))"
  by (simp add: extract_clause_five found_in_active_documents_def check_clause_existence_def
      existing_clauses_def Let_def)

subsection \<open>Chunk merge\<close>

lemma no_new_section_letter:
  "\<not> check_new_section_start ascii_digit ascii_space [66] (Some p)"
  "\<not> check_new_section_start ascii_digit ascii_space [67] (Some p)"
  by (simp_all add: check_new_section_start_def strip_def ascii_space_def ascii_digit_def
      match_numbered_heading_def match_numbered_title_def Let_def)

lemma adjacent_of_first_chunk:
  fixes r10 r11 r12 :: chunk_row and d :: document_row
  assumes rows: "row_id r10 = 10" "row_id r11 = 11" "row_id r12 = 12"
      "row_document_id r10 = 1" "row_document_id r11 = 1" "row_document_id r12 = 1"
      "row_chunk_index r10 = 0" "row_chunk_index r11 = 1" "row_chunk_index r12 = 2"
    and doc: "doc_id d = 1" "doc_status d = ''active''"
  shows "get_adjacent_chunks (Connected \<lparr>chunks = [r10, r11, r12], documents = [d]\<rparr>) 10
           (Some Both) 2 = ([], [row_to_result (r11, d), row_to_result (r12, d)])"
    and "get_adjacent_chunks (Connected \<lparr>chunks = [r10, r11, r12], documents = [d]\<rparr>) 10
           (Some Next) 2 = ([], [row_to_result (r11, d), row_to_result (r12, d)])"
  by (simp_all add: get_adjacent_chunks_def active_rows_of_def rows doc Let_def)

lemma merge_two_following:
  assumes "content n1 = [66]" "content n2 = [67]" "int (length (content p)) + 2 \<le> 15000"
  shows "merge_chunks length ascii_digit ascii_space p [] [n1, n2] (Some 15000) =
           \<lparr>merged_content = content p @ [10, 10, 66, 10, 10, 67],
            included_chunks = [chunk_id p, chunk_id n1, chunk_id n2],
            total_tokens = int (length (content p)) + 2, truncated = False\<rparr>"
proof -
  have loop: "merge_loop length
          (\<lambda>body. check_new_section_start ascii_digit ascii_space body (Some (content p)))
          15000 [] [n1, n2] [p] (int (length (content p)))
        = ([p, n1, n2], int (length (content p)) + 2, False)"
    using assms by (simp add: no_new_section_letter)
  have "join [10, 10] (map content [p, n1, n2]) = content p @ [10, 10, 66, 10, 10, 67]"
    using assms by simp
  with loop assms(3) show ?thesis
    unfolding merge_chunks_def Let_def by simp
qed

lemma expand_first_chunk:
  fixes r10 r11 r12 :: chunk_row and d :: document_row and pivot :: VectorSearchResult
  assumes rows: "row_id r10 = 10" "row_id r11 = 11" "row_id r12 = 12"
      "row_document_id r10 = 1" "row_document_id r11 = 1" "row_document_id r12 = 1"
      "row_chunk_index r10 = 0" "row_chunk_index r11 = 1" "row_chunk_index r12 = 2"
      "row_content r11 = [66]" "row_content r12 = [67]"
    and doc: "doc_id d = 1" "doc_status d = ''active''"
    and pivot: "chunk_id pivot = 10" "int (length (content pivot)) + 2 \<le> 15000"
    and dir: "dir = Some Both \<or> dir = Some Next"
  shows "expand_search_results length ascii_digit ascii_space
           (Connected \<lparr>chunks = [r10, r11, r12], documents = [d]\<rparr>) [pivot]
           [\<lparr>item_chunk_id = 10, item_direction = dir, item_reasons = rs\<rparr>] (Some 15000)
         = [pivot\<lparr>content := content pivot @ [10, 10, 66, 10, 10, 67],
                   metadata :=
                     dict_update (metadata pivot)
                       [(''expanded'', MBool True), (''included_chunks'', MIds [10, 11, 12]),
                        (''total_tokens'', MInt (int (length (content pivot)) + 2)),
                        (''truncated'', MBool False)]\<rparr>]"
proof -
  let ?st = "\<lparr>chunks = [r10, r11, r12], documents = [d]\<rparr>"
  let ?n1 = "row_to_result (r11, d)"
  let ?n2 = "row_to_result (r12, d)"
  have adj: "get_adjacent_chunks (Connected ?st) 10 dir 2 = ([], [?n1, ?n2])"
    using dir adjacent_of_first_chunk [OF rows(1-9) doc] by auto
  have n: "content ?n1 = [66]" "content ?n2 = [67]" "chunk_id ?n1 = 11" "chunk_id ?n2 = 12"
    by (simp_all add: row_to_result_def rows)
  have m: "merge_chunks length ascii_digit ascii_space pivot [] [?n1, ?n2] (Some 15000) =
           \<lparr>merged_content = content pivot @ [10, 10, 66, 10, 10, 67],
            included_chunks = [10, 11, 12],
            total_tokens = int (length (content pivot)) + 2, truncated = False\<rparr>"
    using merge_two_following [OF n(1,2) pivot(2)] by (simp add: n pivot)
  show ?thesis
    unfolding expand_search_results_def Let_def
    using pivot(2) by (simp add: pivot(1) adj m)
qed

lemma three_chunk_rows:
  "\<exists>r10 r11 r12 d. three_chunk_store = \<lparr>chunks = [r10, r11, r12], documents = [d]\<rparr> \<and>
     row_id r10 = 10 \<and> row_id r11 = 11 \<and> row_id r12 = 12 \<and>
     row_document_id r10 = 1 \<and> row_document_id r11 = 1 \<and> row_document_id r12 = 1 \<and>
     row_chunk_index r10 = 0 \<and> row_chunk_index r11 = 1 \<and> row_chunk_index r12 = 2 \<and>
     row_content r11 = [66] \<and> row_content r12 = [67] \<and>
     doc_id d = 1 \<and> doc_status d = ''active''"
  unfolding three_chunk_store_def by (intro exI conjI) (rule refl, simp_all)

lemma expand_on_three_chunk_store:
  assumes "chunk_id pivot = 10" "int (length (content pivot)) + 2 \<le> 15000"
    and "dir = Some Both \<or> dir = Some Next"
  shows "expand_search_results length ascii_digit ascii_space (Connected three_chunk_store)
           [pivot] [\<lparr>item_chunk_id = 10, item_direction = dir, item_reasons = rs\<rparr>]
           (Some 15000)
         = [pivot\<lparr>content := content pivot @ [10, 10, 66, 10, 10, 67],
                   metadata :=
                     dict_update (metadata pivot)
                       [(''expanded'', MBool True), (''included_chunks'', MIds [10, 11, 12]),
                        (''total_tokens'', MInt (int (length (content pivot)) + 2)),
                        (''truncated'', MBool False)]\<rparr>]"
proof -
  from three_chunk_rows obtain r10 r11 r12 d where
    st: "three_chunk_store = \<lparr>chunks = [r10, r11, r12], documents = [d]\<rparr>"
    and rows: "row_id r10 = 10" "row_id r11 = 11" "row_id r12 = 12"
      "row_document_id r10 = 1" "row_document_id r11 = 1" "row_document_id r12 = 1"
      "row_chunk_index r10 = 0" "row_chunk_index r11 = 1" "row_chunk_index r12 = 2"
      "row_content r11 = [66]" "row_content r12 = [67]"
    and doc: "doc_id d = 1" "doc_status d = ''active''"
    by blast
  show ?thesis unfolding st by (rule expand_first_chunk [OF rows doc assms])
qed

lemma merge_loop_window:
  "\<exists>i j. fst (merge_loop enc new_section mt ps nx inc t) = rev (take i ps) @ inc @ take j nx"
proof (induction enc new_section mt ps nx inc t rule: merge_loop.induct)
  case (1 enc new_section mt inc t)
  show ?case by simp
next
  case (2 enc new_section mt p ps inc t)
  show ?case
  proof (cases "t + int (enc (content p)) \<le> mt")
    case True
    from "2.IH" [OF True] obtain i j where
      "fst (merge_loop enc new_section mt ps [] (p # inc) (t + int (enc (content p))))
         = rev (take i ps) @ (p # inc) @ take j []"
      by blast
    with True have "fst (merge_loop enc new_section mt (p # ps) [] inc t)
         = rev (take (Suc i) (p # ps)) @ inc @ take 0 []"
      by simp
    then show ?thesis by blast
  next
    case False
    then have "fst (merge_loop enc new_section mt (p # ps) [] inc t)
         = rev (take 0 (p # ps)) @ inc @ take 0 []"
      by simp
    then show ?thesis by blast
  qed
next
  case (3 enc new_section mt n ns inc t)
  show ?case
  proof (cases "\<not> new_section (content n) \<and> t + int (enc (content n)) \<le> mt")
    case True
    then have a: "\<not> new_section (content n)" and b: "t + int (enc (content n)) \<le> mt"
      by simp_all
    from "3.IH" [OF a b] obtain i j where
      "fst (merge_loop enc new_section mt [] ns (inc @ [n]) (t + int (enc (content n))))
         = rev (take i []) @ (inc @ [n]) @ take j ns"
      by blast
    with a b have "fst (merge_loop enc new_section mt [] (n # ns) inc t)
         = rev (take 0 []) @ inc @ take (Suc j) (n # ns)"
      by simp
    then show ?thesis by blast
  next
    case False
    then have "fst (merge_loop enc new_section mt [] (n # ns) inc t)
         = rev (take 0 []) @ inc @ take 0 (n # ns)"
      by auto
    then show ?thesis by blast
  qed
next
  case (4 enc new_section mt p ps n ns inc t)
  let ?tn = "t + int (enc (content n))"
  show ?case
  proof (cases "\<not> new_section (content n) \<and> ?tn \<le> mt")
    case False
    then have "fst (merge_loop enc new_section mt (p # ps) (n # ns) inc t)
         = rev (take 0 (p # ps)) @ inc @ take 0 (n # ns)"
      by auto
    then show ?thesis by blast
  next
    case True
    then have a: "\<not> new_section (content n)" and b: "?tn \<le> mt" by simp_all
    show ?thesis
    proof (cases "?tn + int (enc (content p)) \<le> mt")
      case False
      with a b have "fst (merge_loop enc new_section mt (p # ps) (n # ns) inc t)
         = rev (take 0 (p # ps)) @ inc @ take (Suc 0) (n # ns)"
        by simp
      then show ?thesis by blast
    next
      case c: True
      from "4.IH" [OF a b c] obtain i j where
        "fst (merge_loop enc new_section mt ps ns (p # inc @ [n]) (?tn + int (enc (content p))))
           = rev (take i ps) @ (p # inc @ [n]) @ take j ns"
        by blast
      with a b c have "fst (merge_loop enc new_section mt (p # ps) (n # ns) inc t)
         = rev (take (Suc i) (p # ps)) @ inc @ take (Suc j) (n # ns)"
        by simp
      then show ?thesis by blast
    qed
  qed
qed

text \<open>
  \<open>merge_chunks\<close> on its own: the included chunks are a window of the list made of the
  previous chunks, the pivot and the next chunks, in that order and with the pivot inside,
  and the merged content is the contents of exactly that window joined by blank lines.
\<close>

lemma merge_chunks_window:
  "\<exists>k j. included_chunks (merge_chunks enc dg sp pivot prev_chunks next_chunks max_tokens)
            = map chunk_id (drop k prev_chunks @ pivot # take j next_chunks) \<and>
          merged_content (merge_chunks enc dg sp pivot prev_chunks next_chunks max_tokens)
            = join [10, 10] (map content (drop k prev_chunks @ pivot # take j next_chunks))"
proof -
  define mt where
    "mt = (case max_tokens of None \<Rightarrow> EXPANSION_MAX_CONTEXT_TOKENS | Some m \<Rightarrow> m)"
  define res where
    "res = (if int (enc (content pivot)) > mt then ([pivot], int (enc (content pivot)), True)
            else merge_loop enc
                   (\<lambda>body. check_new_section_start dg sp body (Some (content pivot)))
                   mt (rev prev_chunks) next_chunks [pivot] (int (enc (content pivot))))"
  have shape: "\<exists>k j. fst res = drop k prev_chunks @ pivot # take j next_chunks"
  proof (cases "int (enc (content pivot)) > mt")
    case True
    then have "fst res = drop (length prev_chunks) prev_chunks @ pivot # take 0 next_chunks"
      by (simp add: res_def)
    then show ?thesis by blast
  next
    case False
    from merge_loop_window obtain i j where
      "fst (merge_loop enc (\<lambda>body. check_new_section_start dg sp body (Some (content pivot)))
              mt (rev prev_chunks) next_chunks [pivot] (int (enc (content pivot))))
         = rev (take i (rev prev_chunks)) @ [pivot] @ take j next_chunks"
      by blast
    with False have "fst res = drop (length prev_chunks - i) prev_chunks @ pivot # take j next_chunks"
      by (simp add: res_def take_rev)
    then show ?thesis by blast
  qed
  have m: "merge_chunks enc dg sp pivot prev_chunks next_chunks max_tokens =
             \<lparr>merged_content = join [10, 10] (map content (fst res)),
              included_chunks = map chunk_id (fst res),
              total_tokens = fst (snd res), truncated = snd (snd res)\<rparr>"
    unfolding merge_chunks_def Let_def mt_def [symmetric] res_def [symmetric]
    by (simp add: case_prod_beta)
  from shape obtain k j where "fst res = drop k prev_chunks @ pivot # take j next_chunks"
    by blast
  with m show ?thesis by (intro exI [of _ k] exI [of _ j]) simp
qed

lemma structure_pass_complete:
  "structure_pass complete_report lower terms rs = []"
  by (induction rs) (simp_all add: complete_report_def Let_def)

lemma judge_first_round:
  assumes "expansion_count st = 0" "search_results st \<noteq> []"
  shows "chunks_to_expand (judge enc lower splt complete_report expand_again st)
           = [\<lparr>item_chunk_id = 10, item_direction = Some Both,
               item_reasons = [[76, 76, 77, 32, 54032, 45800]]\<rparr>]"
    and "search_results (judge enc lower splt complete_report expand_again st)
           = search_results st"
  using assms unfolding judge_def Let_def
  by (simp_all add: structure_pass_complete expand_again_def MAX_EXPANSION_COUNT_def
      judge_sufficient_def)

lemma judge_second_round:
  assumes "expansion_count st = 1" "search_results st \<noteq> []"
    "tokens_of enc (search_results st) \<le> 10000"
  shows "chunks_to_expand (judge enc lower splt complete_report expand_again st)
           = [\<lparr>item_chunk_id = 10, item_direction = Some Next, item_reasons = []\<rparr>]"
    and "search_results (judge enc lower splt complete_report expand_again st)
           = search_results st"
  using assms unfolding judge_def Let_def
  by (simp_all add: expand_again_def MAX_EXPANSION_COUNT_def judge_sufficient_def)

lemma expand_results:
  assumes "chunks_to_expand st \<noteq> []"
  shows "search_results (expand enc dg sp (Inr sess) st)
           = expand_search_results enc dg sp sess (search_results st) (chunks_to_expand st)
               (Some 15000)"
  using assms unfolding expand_def Let_def by simp

text \<open>
  C3 on a pivot that is expanded twice. The request starts from the search result of the
  first chunk of the three-chunk store. In the first round the language model asks for
  the expansion of chunk 10, and the expander merges the chunks 10, 11 and 12: the content
  is the three stored contents joined by blank lines. In the second round the judge
  passes the model's pick on without asking whether the chunk is already expanded; the
  expander merges the already merged content with the chunks 11 and 12 again. The record
  then lists the chunks 10, 11, 12, but its content repeats the contents of 11 and 12 and
  is not the concatenation of the listed chunks.
\<close>

theorem re_expansion_repeats_content:
  "map content (search_results (judge_then_expand
      ((create_initial_state [97] Search)\<lparr>search_results := [first_chunk_hit]\<rparr>)))
     = [[65, 10, 10, 66, 10, 10, 67]] \<and>
   map content (search_results (judge_then_expand (judge_then_expand
      ((create_initial_state [97] Search)\<lparr>search_results := [first_chunk_hit]\<rparr>))))
     = [[65, 10, 10, 66, 10, 10, 67, 10, 10, 66, 10, 10, 67]] \<and>
   map (\<lambda>r. dict_get (metadata r) ''included_chunks'' (MIds []))
     (search_results (judge_then_expand (judge_then_expand
        ((create_initial_state [97] Search)\<lparr>search_results := [first_chunk_hit]\<rparr>))))
     = [MIds [10, 11, 12]] \<and>
   join [10, 10] (map row_content (chunks three_chunk_store)) = [65, 10, 10, 66, 10, 10, 67]"
proof -
  define st0 where
    "st0 = (create_initial_state [97] Search)\<lparr>search_results := [first_chunk_hit]\<rparr>"
  define j1 where "j1 = judge length ascii_lower (\<lambda>s. [s]) complete_report expand_again st0"
  define st1 where "st1 = judge_then_expand st0"
  define j2 where "j2 = judge length ascii_lower (\<lambda>s. [s]) complete_report expand_again st1"
  define st2 where "st2 = judge_then_expand st1"
  define hit1 where
    "hit1 = first_chunk_hit
       \<lparr>content := content first_chunk_hit @ [10, 10, 66, 10, 10, 67],
        metadata :=
          dict_update (metadata first_chunk_hit)
            [(''expanded'', MBool True), (''included_chunks'', MIds [10, 11, 12]),
             (''total_tokens'', MInt (int (length (content first_chunk_hit)) + 2)),
             (''truncated'', MBool False)]\<rparr>"
  define hit2 where
    "hit2 = hit1
       \<lparr>content := content hit1 @ [10, 10, 66, 10, 10, 67],
        metadata :=
          dict_update (metadata hit1)
            [(''expanded'', MBool True), (''included_chunks'', MIds [10, 11, 12]),
             (''total_tokens'', MInt (int (length (content hit1)) + 2)),
             (''truncated'', MBool False)]\<rparr>"
  have hit: "chunk_id first_chunk_hit = 10" "content first_chunk_hit = [65]"
    "metadata first_chunk_hit = []"
    by (simp_all add: first_chunk_hit_def)
  have h1: "chunk_id hit1 = 10" "content hit1 = [65, 10, 10, 66, 10, 10, 67]"
    by (simp_all add: hit1_def hit)
  have h2: "content hit2 = [65, 10, 10, 66, 10, 10, 67, 10, 10, 66, 10, 10, 67]"
    "dict_get (metadata hit2) ''included_chunks'' (MIds []) = MIds [10, 11, 12]"
    by (simp_all add: hit2_def h1 hit1_def hit dict_update_def dict_get_def)
  have s0: "expansion_count st0 = 0" "search_results st0 = [first_chunk_hit]"
    by (simp_all add: st0_def create_initial_state_def)
  have j1: "chunks_to_expand j1 = [\<lparr>item_chunk_id = 10, item_direction = Some Both,
               item_reasons = [[76, 76, 77, 32, 54032, 45800]]\<rparr>]"
    "search_results j1 = [first_chunk_hit]"
    unfolding j1_def using judge_first_round [of st0] s0 by simp_all
  have e1: "search_results st1 = [hit1]"
  proof -
    have "search_results st1 = expand_search_results length ascii_digit ascii_space
            (Connected three_chunk_store) (search_results j1) (chunks_to_expand j1) (Some 15000)"
      unfolding st1_def judge_then_expand_def j1_def [symmetric]
      by (rule expand_results) (simp add: j1)
    also have "\<dots> = [hit1]"
      unfolding j1 hit1_def
      by (rule expand_on_three_chunk_store) (simp_all add: hit)
    finally show ?thesis .
  qed
  have c1: "expansion_count st1 = 1"
    unfolding st1_def judge_then_expand_def
    by (simp add: expand_expansion_count judge_expansion_count s0)
  have j2: "chunks_to_expand j2 = [\<lparr>item_chunk_id = 10, item_direction = Some Next,
               item_reasons = []\<rparr>]"
    "search_results j2 = [hit1]"
    unfolding j2_def using judge_second_round [of st1 length] c1 e1
    by (simp_all add: tokens_of_def h1)
  have e2: "search_results st2 = [hit2]"
  proof -
    have "search_results st2 = expand_search_results length ascii_digit ascii_space
            (Connected three_chunk_store) (search_results j2) (chunks_to_expand j2) (Some 15000)"
      unfolding st2_def judge_then_expand_def j2_def [symmetric]
      by (rule expand_results) (simp add: j2)
    also have "\<dots> = [hit2]"
      unfolding j2 hit2_def
      by (rule expand_on_three_chunk_store) (simp_all add: h1)
    finally show ?thesis .
  qed
  have stored: "join [10, 10] (map row_content (chunks three_chunk_store))
                  = [65, 10, 10, 66, 10, 10, 67]"
    by (simp add: three_chunk_store_def)
  from e1 e2 h1 h2 stored show ?thesis
    unfolding st2_def st1_def st0_def by simp
qed

end
